theory Spec2Isabelle
  imports Complex_Main
begin

section \<open>JavaScript numbers\<close>

text \<open>
  The grounding calculations of \<^verbatim>\<open>groundMath.js\<close> work on JavaScript numbers. A number
  is modelled as an exact real or one of the three special values the source produces or
  tests for: \<open>Infinity\<close>, \<open>-Infinity\<close> and \<open>NaN\<close>. The arithmetic follows IEEE 754 on the
  special values; on finite values it is exact (rounding, overflow and the sign of zero
  are left out, a division by zero gives the infinity of the dividend's sign). The
  rounding of every operation to a double is added further down, for the properties it
  decides.
\<close>

datatype jsnum = Fin real | PInf | NInf | NaN

fun js_neg :: "jsnum \<Rightarrow> jsnum" where
  "js_neg (Fin a) = Fin (- a)"
| "js_neg PInf = NInf"
| "js_neg NInf = PInf"
| "js_neg NaN = NaN"

fun js_add :: "jsnum \<Rightarrow> jsnum \<Rightarrow> jsnum" where
  "js_add NaN _ = NaN"
| "js_add _ NaN = NaN"
| "js_add (Fin a) (Fin b) = Fin (a + b)"
| "js_add (Fin a) PInf = PInf"
| "js_add (Fin a) NInf = NInf"
| "js_add PInf NInf = NaN"
| "js_add PInf _ = PInf"
| "js_add NInf PInf = NaN"
| "js_add NInf _ = NInf"

definition js_sub :: "jsnum \<Rightarrow> jsnum \<Rightarrow> jsnum" where
  "js_sub x y = js_add x (js_neg y)"

text \<open>The infinity carrying the sign of a real; a zero factor gives \<open>NaN\<close>.\<close>

definition inf_of_sign :: "real \<Rightarrow> jsnum" where
  "inf_of_sign a = (if 0 < a then PInf else if a < 0 then NInf else NaN)"

fun js_mul :: "jsnum \<Rightarrow> jsnum \<Rightarrow> jsnum" where
  "js_mul NaN _ = NaN"
| "js_mul _ NaN = NaN"
| "js_mul (Fin a) (Fin b) = Fin (a * b)"
| "js_mul (Fin a) PInf = inf_of_sign a"
| "js_mul (Fin a) NInf = inf_of_sign (- a)"
| "js_mul PInf (Fin b) = inf_of_sign b"
| "js_mul NInf (Fin b) = inf_of_sign (- b)"
| "js_mul PInf PInf = PInf"
| "js_mul PInf NInf = NInf"
| "js_mul NInf PInf = NInf"
| "js_mul NInf NInf = PInf"

fun js_div :: "jsnum \<Rightarrow> jsnum \<Rightarrow> jsnum" where
  "js_div NaN _ = NaN"
| "js_div _ NaN = NaN"
| "js_div (Fin a) (Fin b) = (if b = 0 then inf_of_sign a else Fin (a / b))"
| "js_div (Fin a) PInf = Fin 0"
| "js_div (Fin a) NInf = Fin 0"
| "js_div PInf (Fin b) = (if b < 0 then NInf else PInf)"
| "js_div NInf (Fin b) = (if b < 0 then PInf else NInf)"
| "js_div PInf _ = NaN"
| "js_div NInf _ = NaN"

text \<open>Comparisons: every comparison with \<open>NaN\<close> is false.\<close>

fun js_le :: "jsnum \<Rightarrow> jsnum \<Rightarrow> bool" where
  "js_le NaN _ = False"
| "js_le _ NaN = False"
| "js_le (Fin a) (Fin b) = (a \<le> b)"
| "js_le NInf _ = True"
| "js_le _ PInf = True"
| "js_le PInf _ = False"
| "js_le _ NInf = False"

definition js_ge :: "jsnum \<Rightarrow> jsnum \<Rightarrow> bool" where
  "js_ge x y = js_le y x"

text \<open>Strict equality \<open>===\<close> on numbers: \<open>NaN\<close> equals nothing.\<close>

definition js_seq :: "jsnum \<Rightarrow> jsnum \<Rightarrow> bool" where
  "js_seq x y = (x \<noteq> NaN \<and> y \<noteq> NaN \<and> x = y)"

text \<open>\<open>Math.min\<close> and \<open>Math.max\<close> of two numbers, \<open>Math.log\<close>.\<close>

definition js_min :: "jsnum \<Rightarrow> jsnum \<Rightarrow> jsnum" where
  "js_min x y = (if x = NaN \<or> y = NaN then NaN else if js_le x y then x else y)"

definition js_max :: "jsnum \<Rightarrow> jsnum \<Rightarrow> jsnum" where
  "js_max x y = (if x = NaN \<or> y = NaN then NaN else if js_le x y then y else x)"

fun js_log :: "jsnum \<Rightarrow> jsnum" where
  "js_log (Fin a) = (if 0 < a then Fin (ln a) else if a = 0 then NInf else NaN)"
| "js_log PInf = PInf"
| "js_log NInf = NaN"
| "js_log NaN = NaN"

text \<open>Truthiness of a number, as \<open>||\<close> tests it: zero and \<open>NaN\<close> are falsy.\<close>

definition js_truthy :: "jsnum \<Rightarrow> bool" where
  "js_truthy x = (x \<noteq> Fin 0 \<and> x \<noteq> NaN)"

section \<open>The grounding calculations (groundMath.js)\<close>

text \<open>The table of soil resistivities, an object literal keyed by the soil's name.\<close>

definition SOIL_RESISTIVITY :: "(string \<times> jsnum) list" where
  "SOIL_RESISTIVITY =
     [(''wet'', Fin 10), (''clay'', Fin 40), (''loam'', Fin 100), (''sandy'', Fin 200),
      (''gravel'', Fin 400), (''rocky'', Fin 1000), (''dry'', Fin 1500)]"

definition getCouplingFactor :: "jsnum \<Rightarrow> jsnum \<Rightarrow> jsnum" where
  "getCouplingFactor spacing length' =
     (let ratio = js_div spacing length' in
      if js_ge ratio (Fin 2) then Fin 0
      else if js_ge ratio (Fin (3/2)) then Fin (1/10)
      else if js_ge ratio (Fin 1) then Fin (2/10)
      else if js_ge ratio (Fin (7/10)) then Fin (35/100)
      else if js_ge ratio (Fin (5/10)) then Fin (5/10)
      else Fin (7/10))"

definition calculateSingleRodResistance :: "jsnum \<Rightarrow> jsnum \<Rightarrow> jsnum \<Rightarrow> jsnum" where
  "calculateSingleRodResistance resistivity' length' diameter =
     (if js_le length' (Fin 0) \<or> js_le diameter (Fin 0) then PInf
      else js_mul (js_div resistivity' (js_mul (js_mul (Fin 2) (Fin pi)) length'))
                  (js_log (js_div (js_mul (Fin 4) length') diameter)))"

definition calculateParallelResistance :: "jsnum \<Rightarrow> jsnum \<Rightarrow> jsnum \<Rightarrow> jsnum" where
  "calculateParallelResistance singleRodResistance' rodCount' couplingFactor' =
     (if js_le rodCount' (Fin 0) then PInf
      else if js_seq rodCount' (Fin 1) then singleRodResistance'
      else js_mul (js_div singleRodResistance' rodCount')
                  (js_add (Fin 1) (js_mul couplingFactor' (js_sub rodCount' (Fin 1)))))"

definition calculateRadialContribution :: "jsnum \<Rightarrow> jsnum \<Rightarrow> jsnum \<Rightarrow> jsnum" where
  "calculateRadialContribution baseResistance radialCount' radialLength' =
     (if js_seq radialCount' (Fin 0) \<or> js_seq radialLength' (Fin 0) then Fin 1
      else let reductionFactor =
                 js_min (Fin (4/10)) (js_mul (js_mul radialCount' radialLength') (Fin (5/1000)))
           in js_sub (Fin 1) reductionFactor)"

text \<open>
  The \<open>switch\<close> of \<open>adjustResistivityForWeather\<close> over the weather's name. The function
  and \<open>calculateEfficiency\<close> declare default values for an omitted last argument;
  \<open>calculate\<close> passes every argument, and so does the model.
\<close>

definition weatherFactor :: "string \<Rightarrow> jsnum" where
  "weatherFactor weather' =
     (if weather' = ''rain'' then Fin (5/10)
      else if weather' = ''storm'' then Fin (3/10)
      else if weather' = ''snow'' then Fin (12/10)
      else if weather' = ''sunny'' then Fin 1
      else Fin 1)"

definition adjustResistivityForWeather :: "jsnum \<Rightarrow> string \<Rightarrow> jsnum \<Rightarrow> jsnum" where
  "adjustResistivityForWeather baseResistivity weather' humidity' =
     (let factor = weatherFactor weather';
          factor = js_mul factor (js_sub (Fin 1) (js_mul humidity' (Fin (3/10))))
      in js_mul baseResistivity factor)"

definition calculateEfficiency :: "jsnum \<Rightarrow> jsnum \<Rightarrow> jsnum" where
  "calculateEfficiency resistance targetResistance' =
     (if js_le resistance (Fin 0) then Fin 100
      else if js_ge resistance (js_mul targetResistance' (Fin 10)) then Fin 0
      else js_max (Fin 0)
             (js_min (Fin 100)
                (js_mul (js_sub (Fin 1)
                           (js_div (js_sub resistance targetResistance')
                                   (js_mul targetResistance' (Fin 9))))
                        (Fin 100))))"

definition calculateFaultCurrent :: "jsnum \<Rightarrow> jsnum \<Rightarrow> jsnum" where
  "calculateFaultCurrent voltage resistance =
     (if js_le resistance (Fin 0) then Fin 0 else js_div voltage resistance)"

record SystemStatus =
  status :: string
  color :: string
  message :: string

definition getSystemStatus :: "jsnum \<Rightarrow> SystemStatus" where
  "getSystemStatus resistance =
     (if js_le resistance (Fin 5) then
        \<lparr>status = ''excellent'', color = ''#00ff88'', message = ''Excelente''\<rparr>
      else if js_le resistance (Fin 10) then
        \<lparr>status = ''good'', color = ''#88ff00'', message = ''Bueno''\<rparr>
      else if js_le resistance (Fin 25) then
        \<lparr>status = ''warning'', color = ''#ffaa00'', message = ''Advertencia''\<rparr>
      else
        \<lparr>status = ''danger'', color = ''#ff4444'', message = ''Peligro''\<rparr>)"

text \<open>The fields of a \<open>GroundingSystem\<close> object, and the object its constructor builds.\<close>

record GroundingSystem =
  rodCount :: jsnum
  rodLength :: jsnum
  rodDiameter :: jsnum
  rodSpacing :: jsnum
  radialCount :: jsnum
  radialLength :: jsnum
  soilType :: string
  weather :: string
  humidity :: jsnum
  faultVoltage :: jsnum
  targetResistance :: jsnum

definition GroundingSystem_new :: GroundingSystem where
  "GroundingSystem_new =
     \<lparr>rodCount = Fin 4, rodLength = Fin (24/10), rodDiameter = Fin (16/1000),
      rodSpacing = Fin 3, radialCount = Fin 8, radialLength = Fin 5,
      soilType = ''clay'', weather = ''sunny'', humidity = Fin (5/10),
      faultVoltage = Fin 220, targetResistance = Fin 5\<rparr>"

text \<open>
  The object \<open>calculate\<close> returns. Its last field is called \<open>status\<close> in the source; it
  holds the whole status object, whose own tag is the \<open>status\<close> of \<open>SystemStatus\<close>.
\<close>

record GroundingMetrics =
  resistivity :: jsnum
  singleRodResistance :: jsnum
  couplingFactor :: jsnum
  totalResistance :: jsnum
  efficiency :: jsnum
  faultCurrent :: jsnum
  systemStatus :: SystemStatus

text \<open>
  The table is an ordinary object, so a lookup also finds the keys it inherits from
  \<open>Object.prototype\<close>. Their values are functions (an object for \<open>__proto__\<close>): truthy,
  so \<open>||\<close> keeps them, and \<open>NaN\<close> in the product that \<open>adjustResistivityForWeather\<close>
  forms next.
\<close>

definition Object_prototype_keys :: "string list" where
  "Object_prototype_keys =
     [''constructor'', ''hasOwnProperty'', ''isPrototypeOf'', ''propertyIsEnumerable'',
      ''toLocaleString'', ''toString'', ''valueOf'', ''__proto__'',
      ''__defineGetter__'', ''__defineSetter__'', ''__lookupGetter__'', ''__lookupSetter__'']"

text \<open>
  \<open>SOIL_RESISTIVITY[this.soilType] || 100\<close>, as a number: the table's entry, 100 when the
  key is absent or its entry is falsy, and \<open>NaN\<close> for an inherited key.
\<close>

definition baseResistivityOf :: "string \<Rightarrow> jsnum" where
  "baseResistivityOf soil =
     (case map_of SOIL_RESISTIVITY soil of
        None \<Rightarrow> if soil \<in> set Object_prototype_keys then NaN else Fin 100
      | Some v \<Rightarrow> if js_truthy v then v else Fin 100)"

text \<open>
  \<open>calculate\<close> is a method: it is given the object and returns the metrics together with
  the object as the call leaves it.
\<close>

definition calculate :: "GroundingSystem \<Rightarrow> GroundingMetrics \<times> GroundingSystem" where
  "calculate this =
     (let resistivity0 = baseResistivityOf (soilType this);
          resistivity1 = adjustResistivityForWeather resistivity0 (weather this) (humidity this);
          singleRodR = calculateSingleRodResistance resistivity1 (rodLength this) (rodDiameter this);
          coupling = getCouplingFactor (rodSpacing this) (rodLength this);
          totalR0 = calculateParallelResistance singleRodR (rodCount this) coupling;
          radialFactor = calculateRadialContribution totalR0 (radialCount this) (radialLength this);
          totalR = js_mul totalR0 radialFactor;
          efficiency' = calculateEfficiency totalR (targetResistance this);
          faultCurrent' = calculateFaultCurrent (faultVoltage this) totalR;
          status' = getSystemStatus totalR
      in (\<lparr>resistivity = resistivity1, singleRodResistance = singleRodR,
           couplingFactor = coupling, totalResistance = totalR,
           efficiency = efficiency', faultCurrent = faultCurrent',
           systemStatus = status'\<rparr>, this))"

text \<open>\<open>Number.isFinite\<close>: neither an infinity nor \<open>NaN\<close>.\<close>

fun js_isFinite :: "jsnum \<Rightarrow> bool" where
  "js_isFinite (Fin a) = True"
| "js_isFinite _ = False"

section \<open>The humidity handler (main.js)\<close>

text \<open>
  The simulator object owns the grounding system and hands it the values the panel
  reports. Of the simulator's state, the two fields that hold a humidity are modelled:
  \<open>this.terrain.humidity\<close> and \<open>this.groundingSystem\<close>. The scene, the meshes and the
  panel are left out.
\<close>

record GroundingSimulator =
  terrainHumidity :: jsnum
  groundingSystem :: GroundingSystem

definition GroundingSimulator_new :: GroundingSimulator where
  "GroundingSimulator_new =
     \<lparr>terrainHumidity = Fin (5/10), groundingSystem = GroundingSystem_new\<rparr>"

text \<open>\<open>Terrain.setHumidity\<close>: \<open>this.humidity = Math.max(0, Math.min(1, value))\<close>.\<close>

definition Terrain_setHumidity :: "jsnum \<Rightarrow> GroundingSimulator \<Rightarrow> GroundingSimulator" where
  "Terrain_setHumidity v sim = sim\<lparr>terrainHumidity := js_max (Fin 0) (js_min (Fin 1) v)\<rparr>"

text \<open>
  \<open>updateCalculations\<close> calls \<open>calculate\<close> and passes the metrics on to the display; the
  simulator keeps the grounding system as the call leaves it.
\<close>

definition updateCalculations :: "GroundingSimulator \<Rightarrow> GroundingSimulator" where
  "updateCalculations sim = sim\<lparr>groundingSystem := snd (calculate (groundingSystem sim))\<rparr>"

text \<open>The case \<open>'humidity'\<close> of \<open>handleTerrainChange(param, value)\<close>.\<close>

definition handleTerrainChange_humidity :: "jsnum \<Rightarrow> GroundingSimulator \<Rightarrow> GroundingSimulator" where
  "handleTerrainChange_humidity v sim =
     (let sim1 = Terrain_setHumidity v sim;
          sim2 = sim1\<lparr>groundingSystem := (groundingSystem sim1)\<lparr>humidity := v\<rparr>\<rparr>
      in updateCalculations sim2)"

text \<open>A number lies in the interval from 0 to 1.\<close>

definition inUnitInterval :: "jsnum \<Rightarrow> bool" where
  "inUnitInterval x = (js_le (Fin 0) x \<and> js_le x (Fin 1))"

section \<open>Double-precision arithmetic\<close>

text \<open>
  A JavaScript number is an IEEE 754 double, and every arithmetic operation rounds its
  exact result to the nearest double, ties to the even significand. Where a property is
  an order between computed values, the finiteness of one, or the branch a comparison
  takes, the rounding decides, and the functions are modelled a second time with it.

  \<open>expo x\<close> is the exponent of the binade of \<open>x\<close>, not below that of the subnormal
  numbers; \<open>ulp x\<close> is the spacing of the doubles there; \<open>rne\<close> rounds a real to the
  nearest integer, ties to even; \<open>rnd\<close> rounds to the nearest multiple of \<open>ulp x\<close>; and
  \<open>fl64\<close> is \<open>rnd\<close> with the overflow to an infinity.
\<close>

definition expo :: "real \<Rightarrow> int" where
  "expo x = (if x = 0 then - 1022 else max \<lfloor>log 2 \<bar>x\<bar>\<rfloor> (- 1022))"

definition ulp :: "real \<Rightarrow> real" where
  "ulp x = 2 powi (expo x - 52)"

definition rne :: "real \<Rightarrow> int" where
  "rne m = (let f = \<lfloor>m\<rfloor>; r = m - of_int f
            in if r < 1/2 then f else if 1/2 < r then f + 1
               else if even f then f else f + 1)"

definition rnd :: "real \<Rightarrow> real" where
  "rnd x = of_int (rne (x / ulp x)) * ulp x"

definition fl64 :: "real \<Rightarrow> jsnum" where
  "fl64 x = (if 2 ^ 1024 \<le> \<bar>rnd x\<bar> then inf_of_sign x else Fin (rnd x))"

text \<open>
  An operation on doubles is the exact operation followed by the rounding; the special
  values pass through. \<open>d_lit\<close> is a decimal literal of the source, \<open>d_PI\<close> is \<open>Math.PI\<close>,
  and \<open>d_log\<close> is \<open>Math.log\<close>, taken as the correctly rounded logarithm. Integers and
  binary fractions such as 0.5 and 1.5 are doubles and are written as they are.
\<close>

fun d_round :: "jsnum \<Rightarrow> jsnum" where
  "d_round (Fin a) = fl64 a"
| "d_round PInf = PInf"
| "d_round NInf = NInf"
| "d_round NaN = NaN"

definition d_add :: "jsnum \<Rightarrow> jsnum \<Rightarrow> jsnum" where
  "d_add x y = d_round (js_add x y)"

definition d_sub :: "jsnum \<Rightarrow> jsnum \<Rightarrow> jsnum" where
  "d_sub x y = d_round (js_sub x y)"

definition d_mul :: "jsnum \<Rightarrow> jsnum \<Rightarrow> jsnum" where
  "d_mul x y = d_round (js_mul x y)"

definition d_div :: "jsnum \<Rightarrow> jsnum \<Rightarrow> jsnum" where
  "d_div x y = d_round (js_div x y)"

definition d_log :: "jsnum \<Rightarrow> jsnum" where
  "d_log x = d_round (js_log x)"

definition d_lit :: "real \<Rightarrow> jsnum" where
  "d_lit x = fl64 x"

definition d_PI :: jsnum where
  "d_PI = fl64 pi"

section \<open>The grounding calculations on doubles\<close>

text \<open>The functions of \<open>groundMath.js\<close> once more, line by line, in double arithmetic.\<close>

definition getCouplingFactor64 :: "jsnum \<Rightarrow> jsnum \<Rightarrow> jsnum" where
  "getCouplingFactor64 spacing length' =
     (let ratio = d_div spacing length' in
      if js_ge ratio (Fin 2) then Fin 0
      else if js_ge ratio (Fin (3/2)) then d_lit (1/10)
      else if js_ge ratio (Fin 1) then d_lit (2/10)
      else if js_ge ratio (d_lit (7/10)) then d_lit (35/100)
      else if js_ge ratio (Fin (1/2)) then Fin (1/2)
      else d_lit (7/10))"

definition calculateSingleRodResistance64 :: "jsnum \<Rightarrow> jsnum \<Rightarrow> jsnum \<Rightarrow> jsnum" where
  "calculateSingleRodResistance64 resistivity' length' diameter =
     (if js_le length' (Fin 0) \<or> js_le diameter (Fin 0) then PInf
      else d_mul (d_div resistivity' (d_mul (d_mul (Fin 2) d_PI) length'))
                 (d_log (d_div (d_mul (Fin 4) length') diameter)))"

definition calculateParallelResistance64 :: "jsnum \<Rightarrow> jsnum \<Rightarrow> jsnum \<Rightarrow> jsnum" where
  "calculateParallelResistance64 singleRodResistance' rodCount' couplingFactor' =
     (if js_le rodCount' (Fin 0) then PInf
      else if js_seq rodCount' (Fin 1) then singleRodResistance'
      else d_mul (d_div singleRodResistance' rodCount')
                 (d_add (Fin 1) (d_mul couplingFactor' (d_sub rodCount' (Fin 1)))))"

definition calculateRadialContribution64 :: "jsnum \<Rightarrow> jsnum \<Rightarrow> jsnum \<Rightarrow> jsnum" where
  "calculateRadialContribution64 baseResistance radialCount' radialLength' =
     (if js_seq radialCount' (Fin 0) \<or> js_seq radialLength' (Fin 0) then Fin 1
      else let reductionFactor =
                 js_min (d_lit (4/10))
                   (d_mul (d_mul radialCount' radialLength') (d_lit (5/1000)))
           in d_sub (Fin 1) reductionFactor)"

definition weatherFactor64 :: "string \<Rightarrow> jsnum" where
  "weatherFactor64 weather' =
     (if weather' = ''rain'' then Fin (1/2)
      else if weather' = ''storm'' then d_lit (3/10)
      else if weather' = ''snow'' then d_lit (12/10)
      else if weather' = ''sunny'' then Fin 1
      else Fin 1)"

definition adjustResistivityForWeather64 :: "jsnum \<Rightarrow> string \<Rightarrow> jsnum \<Rightarrow> jsnum" where
  "adjustResistivityForWeather64 baseResistivity weather' humidity' =
     (let factor = weatherFactor64 weather';
          factor = d_mul factor (d_sub (Fin 1) (d_mul humidity' (d_lit (3/10))))
      in d_mul baseResistivity factor)"

definition calculateEfficiency64 :: "jsnum \<Rightarrow> jsnum \<Rightarrow> jsnum" where
  "calculateEfficiency64 resistance targetResistance' =
     (if js_le resistance (Fin 0) then Fin 100
      else if js_ge resistance (d_mul targetResistance' (Fin 10)) then Fin 0
      else js_max (Fin 0)
             (js_min (Fin 100)
                (d_mul (d_sub (Fin 1)
                          (d_div (d_sub resistance targetResistance')
                                 (d_mul targetResistance' (Fin 9))))
                       (Fin 100))))"

definition calculateFaultCurrent64 :: "jsnum \<Rightarrow> jsnum \<Rightarrow> jsnum" where
  "calculateFaultCurrent64 voltage resistance =
     (if js_le resistance (Fin 0) then Fin 0 else d_div voltage resistance)"

definition calculate64 :: "GroundingSystem \<Rightarrow> GroundingMetrics \<times> GroundingSystem" where
  "calculate64 this =
     (let resistivity0 = baseResistivityOf (soilType this);
          resistivity1 = adjustResistivityForWeather64 resistivity0 (weather this) (humidity this);
          singleRodR = calculateSingleRodResistance64 resistivity1 (rodLength this) (rodDiameter this);
          coupling = getCouplingFactor64 (rodSpacing this) (rodLength this);
          totalR0 = calculateParallelResistance64 singleRodR (rodCount this) coupling;
          radialFactor = calculateRadialContribution64 totalR0 (radialCount this) (radialLength this);
          totalR = d_mul totalR0 radialFactor;
          efficiency' = calculateEfficiency64 totalR (targetResistance this);
          faultCurrent' = calculateFaultCurrent64 (faultVoltage this) totalR;
          status' = getSystemStatus totalR
      in (\<lparr>resistivity = resistivity1, singleRodResistance = singleRodR,
           couplingFactor = coupling, totalResistance = totalR,
           efficiency = efficiency', faultCurrent = faultCurrent',
           systemStatus = status'\<rparr>, this))"

section \<open>Numeric bounds\<close>

text \<open>
  The default configuration's resistance contains \<open>pi\<close> and \<open>ln 600\<close>. Both are enclosed
  by Taylor polynomials with their remainders: \<open>pi\<close> through \<open>sin (pi/6) = 1/2\<close>, the
  logarithm through \<open>exp (4/5)\<close> and its eighth power.
\<close>

lemma sin_coeff_sum7:
  fixes x :: real
  shows "(\<Sum>m<7. sin_coeff m * x ^ m) = x - x^3/6 + x^5/120"
proof -
  have s: "{..<7::nat} = {0,1,2,3,4,5,6}" by auto
  show ?thesis
    unfolding s by (simp add: sin_coeff_def fact_numeral)
qed

lemma sin_taylor7:
  fixes x :: real
  assumes "0 \<le> x"
  shows "\<bar>sin x - (x - x^3/6 + x^5/120)\<bar> \<le> x^7/5040"
  using Maclaurin_sin_bound[of x 7] assms unfolding sin_coeff_sum7
  by (simp add: fact_numeral)

lemma pi_gt_3141: "3141/1000 < pi"
proof -
  let ?x = "3141/6000 :: real"
  have "\<bar>sin ?x - (?x - ?x^3/6 + ?x^5/120)\<bar> \<le> ?x^7/5040"
    by (rule sin_taylor7) simp
  then have "sin ?x \<le> (?x - ?x^3/6 + ?x^5/120) + ?x^7/5040" by linarith
  also have "\<dots> < 1/2" by (simp add: power_divide)
  finally have "sin ?x < sin (pi/6)" by (simp add: sin_30)
  moreover have "?x \<le> pi/2" "- (pi/2) \<le> ?x" "pi/6 \<le> pi/2" "- (pi/2) \<le> pi/6"
    using pi_ge_two by simp_all
  ultimately have "?x < pi/6" using sin_mono_less_eq[of ?x "pi/6"] by blast
  then show ?thesis by simp
qed

lemma pi_lt_3142: "pi < 3142/1000"
proof -
  let ?x = "3142/6000 :: real"
  have "\<bar>sin ?x - (?x - ?x^3/6 + ?x^5/120)\<bar> \<le> ?x^7/5040"
    by (rule sin_taylor7) simp
  then have "(?x - ?x^3/6 + ?x^5/120) - ?x^7/5040 \<le> sin ?x" by linarith
  moreover have "1/2 < (?x - ?x^3/6 + ?x^5/120) - ?x^7/5040" by (simp add: power_divide)
  ultimately have "sin (pi/6) < sin ?x" by (simp add: sin_30)
  moreover have "?x \<le> pi/2" "- (pi/2) \<le> ?x" "pi/6 \<le> pi/2" "- (pi/2) \<le> pi/6"
    using pi_ge_two by simp_all
  ultimately have "pi/6 < ?x" using sin_mono_less_eq[of "pi/6" ?x] by blast
  then show ?thesis by simp
qed

lemma exp_sum8:
  fixes x :: real
  shows "(\<Sum>m<8. x ^ m / fact m) =
     1 + x + x^2/2 + x^3/6 + x^4/24 + x^5/120 + x^6/720 + x^7/5040"
proof -
  have s: "{..<8::nat} = {0,1,2,3,4,5,6,7}" by auto
  show ?thesis unfolding s by (simp add: fact_numeral)
qed

lemma exp_45_bounds: "22251/10000 < exp (4/5 :: real)" "exp (4/5 :: real) < 22256/10000"
proof -
  let ?x = "4/5 :: real"
  let ?S = "1 + ?x + ?x^2/2 + ?x^3/6 + ?x^4/24 + ?x^5/120 + ?x^6/720 + ?x^7/5040"
  obtain t where t: "\<bar>t\<bar> \<le> \<bar>?x\<bar>" and e: "exp ?x = ?S + (exp t / fact 8) * ?x ^ 8"
    using Maclaurin_exp_le[of ?x 8] unfolding exp_sum8 by blast
  have "0 < exp t" by simp
  moreover have "exp t \<le> exp 1" using t by simp
  then have "exp t \<le> 3" using exp_le by linarith
  ultimately have r: "0 \<le> (exp t / fact 8) * ?x ^ 8"
      "(exp t / fact 8) * ?x ^ 8 \<le> 3 / 40320 * ?x^8"
    by (simp_all add: fact_numeral)
  have "22251/10000 < ?S" by (simp add: power_divide)
  with r(1) e show "22251/10000 < exp ?x" by linarith
  have "?S + 3 / 40320 * ?x^8 < 22256/10000" by (simp add: power_divide)
  with r(2) e show "exp ?x < 22256/10000" by linarith
qed

lemma ln_600_lt: "ln (600::real) < 64/10"
proof -
  have "(600::real) < (22251/10000)^8" by (simp add: power_divide)
  also have "\<dots> < exp (4/5) ^ 8"
    using exp_45_bounds(1) by (intro power_strict_mono) simp_all
  also have "\<dots> = exp (of_nat 8 * (4/5))" by (rule exp_of_nat_mult[symmetric])
  finally have "exp (ln 600) < exp (64/10 :: real)" by simp
  then show ?thesis by (simp only: exp_less_cancel_iff)
qed

lemma ln_600_gt: "6395/1000 < ln (600::real)"
proof -
  have "exp (6395/1000 :: real) * (1 + 5/1000) \<le> exp (6395/1000) * exp (5/1000)"
    by (intro mult_left_mono exp_ge_add_one_self) simp
  also have "\<dots> = exp (of_nat 8 * (4/5))" by (simp add: exp_add[symmetric])
  also have "\<dots> = exp (4/5) ^ 8" by (rule exp_of_nat_mult)
  also have "\<dots> < (22256/10000)^8"
    using exp_45_bounds(2) by (intro power_strict_mono) simp_all
  also have "\<dots> < 600 * (1 + 5/1000)" by (simp add: power_divide)
  finally have "exp (6395/1000 :: real) < exp (ln 600)" by simp
  then show ?thesis by (simp only: exp_less_cancel_iff)
qed

lemma default_total_bounds:
  fixes R :: real
  assumes R: "R = 34 / (2 * pi * (24/10)) * ln 600 / 4 * (1 + 2/10 * 3) * (8/10)"
  shows "4613/1000 < R" "R < 462/100"
proof -
  have R': "R = (34/15) * ln 600 / pi" by (simp add: R field_simps)
  have "(4613/1000) * pi < (34/15) * ln 600"
    using pi_lt_3142 ln_600_gt by linarith
  then show "4613/1000 < R" unfolding R' by (simp add: pos_less_divide_eq)
  have "(34/15) * ln 600 < (462/100) * pi"
    using pi_gt_3141 ln_600_lt by linarith
  then show "R < 462/100" unfolding R' by (simp add: pos_divide_less_eq)
qed

lemma default_current_bounds:
  fixes R :: real
  assumes "4613/1000 < R" "R < 462/100"
  shows "476/10 < 220 / R" "220 / R < 477/10"
proof -
  have p: "0 < R" using assms by linarith
  have "(476/10) * R < 220" using assms by linarith
  then show "476/10 < 220 / R" using p by (simp add: pos_less_divide_eq)
  have "220 < (477/10) * R" using assms by linarith
  then show "220 / R < 477/10" using p by (simp add: pos_divide_less_eq)
qed

section \<open>Properties of the calculations\<close>

lemmas grounding_defs = calculate_def baseResistivityOf_def SOIL_RESISTIVITY_def
  adjustResistivityForWeather_def weatherFactor_def calculateSingleRodResistance_def
  getCouplingFactor_def calculateParallelResistance_def calculateRadialContribution_def
  calculateEfficiency_def calculateFaultCurrent_def getSystemStatus_def
  js_sub_def js_ge_def js_seq_def js_min_def js_max_def js_truthy_def inf_of_sign_def

lemma calculate_status:
  "systemStatus (fst (calculate g)) = getSystemStatus (totalResistance (fst (calculate g)))"
  by (simp add: calculate_def Let_def)

lemma calculate_faultCurrent:
  "faultCurrent (fst (calculate g))
     = calculateFaultCurrent (faultVoltage g) (totalResistance (fst (calculate g)))"
  by (simp add: calculate_def Let_def)

lemma calculate_efficiency:
  "efficiency (fst (calculate g))
     = calculateEfficiency (totalResistance (fst (calculate g))) (targetResistance g)"
  by (simp add: calculate_def Let_def)

text \<open>
  C1. For the configuration the constructor builds (clay, sunny, humidity 0.5, four rods
  of 2.4 m and 16 mm at 3 m, eight radials of 5 m, 220 V, target 5 \<Omega>), \<open>calculate\<close>
  gives the adjusted resistivity 34, the coupling factor 0.2 and the radial factor 0.8.
  The total resistance \<open>R\<close> lies between 4.61 and 4.62 \<Omega>, so it is at most 5 and the
  status is "excellent", and the fault current is \<open>220 / R\<close>, between 47.6 and 47.7 A.
\<close>

theorem calculate_default:
  "(let R = 34 / (2 * pi * (24/10)) * ln 600 / 4 * (1 + 2/10 * 3) * (8/10);
        m = fst (calculate GroundingSystem_new)
    in resistivity m = Fin 34
     \<and> couplingFactor m = Fin (2/10)
     \<and> calculateRadialContribution b (radialCount GroundingSystem_new)
          (radialLength GroundingSystem_new) = Fin (8/10)
     \<and> totalResistance m = Fin R
     \<and> 461/100 < R \<and> R < 462/100 \<and> R \<le> 5
     \<and> status (systemStatus m) = ''excellent''
     \<and> faultCurrent m = Fin (220 / R)
     \<and> 476/10 < 220 / R \<and> 220 / R < 477/10)"
proof -
  define R :: real where "R = 34 / (2 * pi * (24/10)) * ln 600 / 4 * (1 + 2/10 * 3) * (8/10)"
  have b: "4613/1000 < R" "R < 462/100"
    by (rule default_total_bounds[OF R_def])+
  have t: "totalResistance (fst (calculate GroundingSystem_new)) = Fin R"
    unfolding R_def by (simp add: grounding_defs GroundingSystem_new_def Let_def)
  have 1: "resistivity (fst (calculate GroundingSystem_new)) = Fin 34"
    by (simp add: grounding_defs GroundingSystem_new_def Let_def)
  have 2: "couplingFactor (fst (calculate GroundingSystem_new)) = Fin (2/10)"
    by (simp add: grounding_defs GroundingSystem_new_def Let_def)
  have 3: "calculateRadialContribution b (radialCount GroundingSystem_new)
          (radialLength GroundingSystem_new) = Fin (8/10)"
    by (simp add: grounding_defs GroundingSystem_new_def Let_def)
  have 4: "status (systemStatus (fst (calculate GroundingSystem_new))) = ''excellent''"
    unfolding calculate_status t using b by (simp add: getSystemStatus_def)
  have 5: "faultCurrent (fst (calculate GroundingSystem_new)) = Fin (220 / R)"
    unfolding calculate_faultCurrent t using b
    by (simp add: calculateFaultCurrent_def GroundingSystem_new_def)
  have "resistivity (fst (calculate GroundingSystem_new)) = Fin 34
     \<and> couplingFactor (fst (calculate GroundingSystem_new)) = Fin (2/10)
     \<and> calculateRadialContribution b (radialCount GroundingSystem_new)
          (radialLength GroundingSystem_new) = Fin (8/10)
     \<and> totalResistance (fst (calculate GroundingSystem_new)) = Fin R
     \<and> 461/100 < R \<and> R < 462/100 \<and> R \<le> 5
     \<and> status (systemStatus (fst (calculate GroundingSystem_new))) = ''excellent''
     \<and> faultCurrent (fst (calculate GroundingSystem_new)) = Fin (220 / R)
     \<and> 476/10 < 220 / R \<and> 220 / R < 477/10"
    using 1 2 3 4 5 t b default_current_bounds[OF b] by simp
  then show ?thesis
    unfolding R_def Let_def .
qed

subsection \<open>Values on finite arguments\<close>

lemma radial_factor_Fin:
  "calculateRadialContribution b (Fin rc) (Fin rl)
     = Fin (if rc = 0 \<or> rl = 0 then 1 else 1 - min (4/10) (rc * rl * (5/1000)))"
  by (simp add: calculateRadialContribution_def js_seq_def js_min_def js_sub_def Let_def min_def)

lemma efficiency_Fin:
  "0 < t \<Longrightarrow> calculateEfficiency (Fin r) (Fin t)
     = Fin (if r \<le> 0 then 100 else if t * 10 \<le> r then 0
            else max 0 (min 100 ((1 - (r - t) / (t * 9)) * 100)))"
  by (simp add: calculateEfficiency_def js_ge_def js_sub_def js_min_def js_max_def
      max_def min_def)

lemma efficiency_PInf: "calculateEfficiency PInf (Fin t) = Fin 0"
  by (simp add: calculateEfficiency_def js_ge_def)

lemma efficiency_NInf: "calculateEfficiency NInf (Fin t) = Fin 100"
  by (simp add: calculateEfficiency_def js_ge_def)

lemma efficiency_range:
  "0 < t \<Longrightarrow> r \<noteq> NaN \<Longrightarrow>
     js_le (Fin 0) (calculateEfficiency r (Fin t))
     \<and> js_le (calculateEfficiency r (Fin t)) (Fin 100)"
  by (cases r) (simp_all add: efficiency_Fin efficiency_PInf efficiency_NInf)

lemma efficiency_real_mono:
  fixes t r1 r2 :: real
  assumes "0 < t" "r1 \<le> r2"
  shows "(if r2 \<le> 0 then 100 else if t * 10 \<le> r2 then 0
            else max 0 (min 100 ((1 - (r2 - t) / (t * 9)) * 100)))
       \<le> (if r1 \<le> 0 then 100 else if t * 10 \<le> r1 then 0
            else max 0 (min 100 ((1 - (r1 - t) / (t * 9)) * (100::real))))"
proof -
  have "(r1 - t) / (t * 9) \<le> (r2 - t) / (t * 9)"
    using assms by (simp add: divide_right_mono)
  then have "1 - (r2 - t) / (t * 9) \<le> 1 - (r1 - t) / (t * 9)" by linarith
  then have m: "(1 - (r2 - t) / (t * 9)) * 100 \<le> (1 - (r1 - t) / (t * 9)) * 100"
    by (intro mult_right_mono) simp_all
  show ?thesis using assms m by (auto simp: max_def min_def)
qed

lemma updateCalculations_id: "updateCalculations sim = sim"
  by (simp add: updateCalculations_def calculate_def Let_def)

subsection \<open>The claims in exact arithmetic\<close>

text \<open>
  C3. The claim fails on the code: the humidity case of \<open>handleTerrainChange\<close> assigns its
  argument to the grounding system as it is. After the value 1.5 the humidity stored in
  the grounding system is 1.5, outside the interval from 0 to 1, while the terrain's own
  copy, set by \<open>Terrain.setHumidity\<close> on the line before, is clamped to 1.
\<close>

theorem humidity_handler_unclamped:
  "humidity (groundingSystem
      (handleTerrainChange_humidity (Fin (3/2)) GroundingSimulator_new)) = Fin (3/2)
   \<and> \<not> inUnitInterval (humidity (groundingSystem
          (handleTerrainChange_humidity (Fin (3/2)) GroundingSimulator_new)))
   \<and> terrainHumidity (handleTerrainChange_humidity (Fin (3/2)) GroundingSimulator_new) = Fin 1"
  by (simp add: handleTerrainChange_humidity_def updateCalculations_id Terrain_setHumidity_def
      Let_def inUnitInterval_def js_min_def js_max_def)

text \<open>
  C5. For a positive target, the efficiency at the target is 100, the efficiency at ten
  times the target is 0, and the efficiency never grows with the resistance.
\<close>

theorem efficiency_properties:
  assumes "0 < t" "js_le r1 r2"
  shows "calculateEfficiency (Fin t) (Fin t) = Fin 100
    \<and> calculateEfficiency (Fin (10 * t)) (Fin t) = Fin 0
    \<and> js_le (calculateEfficiency r2 (Fin t)) (calculateEfficiency r1 (Fin t))"
proof (intro conjI)
  show "calculateEfficiency (Fin t) (Fin t) = Fin 100"
    using assms(1) by (simp add: efficiency_Fin)
  show "calculateEfficiency (Fin (10 * t)) (Fin t) = Fin 0"
    using assms(1) by (simp add: efficiency_Fin)
  note le = assms(2) and t = assms(1)
  show "js_le (calculateEfficiency r2 (Fin t)) (calculateEfficiency r1 (Fin t))"
  proof (cases r1)
    case (Fin a)
    show ?thesis
    proof (cases r2)
      case (Fin b)
      with \<open>r1 = Fin a\<close> le have "a \<le> b" by simp
      then show ?thesis
        unfolding \<open>r1 = Fin a\<close> Fin efficiency_Fin[OF t] js_le.simps
        using efficiency_real_mono[OF t] by blast
    next
      case PInf
      then show ?thesis
        using efficiency_range[OF t, of r1] \<open>r1 = Fin a\<close> by (simp add: efficiency_PInf)
    qed (use le \<open>r1 = Fin a\<close> in simp_all)
  next
    case NInf
    have "r2 \<noteq> NaN" using le by (cases r2) (simp_all add: NInf)
    then show ?thesis
      using efficiency_range[OF t, of r2] by (simp add: NInf efficiency_NInf)
  next
    case PInf
    then have "r2 = PInf" using le by (cases r2) simp_all
    then show ?thesis by (simp add: PInf efficiency_PInf)
  next
    case NaN
    then show ?thesis using le by simp
  qed
qed

theorem efficiency_properties_witness:
  "calculateEfficiency (Fin 5) (Fin 5) = Fin 100
    \<and> calculateEfficiency (Fin 50) (Fin 5) = Fin 0
    \<and> js_le (calculateEfficiency (Fin 20) (Fin 5)) (calculateEfficiency (Fin 8) (Fin 5))
    \<and> calculateEfficiency (Fin 20) (Fin 5) = Fin (200/3)"
  using efficiency_properties[of 5 "Fin 8" "Fin 20"]
  by (simp add: efficiency_Fin)

text \<open>
  C7. For a radial count and a radial length that are at least 0, the radial factor is 1
  when either is zero and \<open>1 - min 0.4 (radialCount * radialLength * 0.005)\<close> otherwise;
  it lies between 0.6 and 1, so the reduction is never more than 40 percent.
\<close>

theorem radial_factor_range:
  assumes "0 \<le> rc" "0 \<le> rl"
  shows "(let f = (if rc = 0 \<or> rl = 0 then 1 else 1 - min (4/10) (rc * rl * (5/1000)))
          in calculateRadialContribution b (Fin rc) (Fin rl) = Fin f \<and> 6/10 \<le> f \<and> f \<le> 1)"
proof -
  have "0 \<le> rc * rl * (5/1000)" using assms by simp
  then show ?thesis
    unfolding radial_factor_Fin Let_def by (auto simp: min_def)
qed

theorem radial_factor_range_witness:
  "calculateRadialContribution (Fin 7) (Fin 8) (Fin 5) = Fin (8/10)
   \<and> calculateRadialContribution (Fin 7) (Fin 16) (Fin 15) = Fin (6/10)
   \<and> calculateRadialContribution (Fin 7) (Fin 0) (Fin 15) = Fin 1"
  using radial_factor_range[of 8 5 "Fin 7"] radial_factor_range[of 16 15 "Fin 7"]
    radial_factor_range[of 0 15 "Fin 7"]
  by (simp add: Let_def)

text \<open>
  C9. \<open>calculate\<close> leaves every field of the grounding system as it was, and a second
  call right after the first returns the same metrics.
\<close>

theorem calculate_reads_only:
  "(let (m1, g1) = calculate g; (m2, g2) = calculate g1
    in g1 = g \<and> g2 = g \<and> m2 = m1)"
  by (simp add: calculate_def Let_def)

text \<open>
  C10. The radial factor does not depend on the base resistance it is given: the
  parameter is accepted and never read.
\<close>

theorem radial_ignores_base:
  "calculateRadialContribution r1 radialCount' radialLength'
     = calculateRadialContribution r2 radialCount' radialLength'"
  by (simp add: calculateRadialContribution_def)

section \<open>Rounding to the nearest double\<close>

lemma rne_cases: "rne m = \<lfloor>m\<rfloor> \<or> rne m = \<lfloor>m\<rfloor> + 1"
  by (simp add: rne_def Let_def)

lemma rne_error: "\<bar>of_int (rne m) - m\<bar> \<le> 1/2"
  unfolding rne_def Let_def by (auto simp: abs_le_iff)

lemma rne_near: 
  assumes "\<bar>m - of_int k\<bar> < 1/2" 
  shows "rne m = k"
proof -
  have "\<bar>of_int (rne m) - m\<bar> \<le> 1/2" by (rule rne_error)
  with assms have "\<bar>(of_int (rne m) :: real) - of_int k\<bar> < 1" by linarith
  then have "\<bar>of_int (rne m - k) :: real\<bar> < 1" by simp
  then have "\<bar>rne m - k\<bar> < 1" by (simp only: of_int_abs[symmetric] of_int_less_1_iff)
  then show ?thesis by linarith
qed

lemma rne_of_int [simp]: "rne (of_int k) = k"
  by (rule rne_near) simp

lemma rne_mono: 
  assumes "m \<le> m'" 
  shows "rne m \<le> rne m'"
proof (cases "\<lfloor>m\<rfloor> = \<lfloor>m'\<rfloor>")
  case True
  then show ?thesis using assms unfolding rne_def Let_def by auto
next
  case False
  then have "\<lfloor>m\<rfloor> < \<lfloor>m'\<rfloor>" using assms floor_mono[of m m'] by linarith
  then have "\<lfloor>m\<rfloor> + 1 \<le> \<lfloor>m'\<rfloor>" by linarith
  moreover have "rne m \<le> \<lfloor>m\<rfloor> + 1" using rne_cases[of m] by linarith
  moreover have "\<lfloor>m'\<rfloor> \<le> rne m'" using rne_cases[of m'] by linarith
  ultimately show ?thesis by linarith
qed

lemma rne_minus: "rne (- m) = - rne m"
proof (cases "m \<in> \<int>")
  case True
  then obtain k where "m = of_int k" by (auto elim: Ints_cases)
  then show ?thesis by (simp flip: of_int_minus)
next
  case False
  then have ne: "m \<noteq> of_int \<lfloor>m\<rfloor>" by (metis Ints_of_int)
  then have f: "\<lfloor>- m\<rfloor> = - \<lfloor>m\<rfloor> - 1"
    by (simp add: floor_minus ceiling_altdef)
  have fr: "of_int \<lfloor>m\<rfloor> < m" using ne of_int_floor_le[of m] by linarith
  show ?thesis
    unfolding rne_def Let_def f using fr by (auto simp: algebra_simps)
qed

lemma floor_log2_bounds:
  assumes "x \<noteq> 0"
  shows "2 powi \<lfloor>log 2 \<bar>x\<bar>\<rfloor> \<le> \<bar>x\<bar>" "\<bar>x\<bar> < 2 powi (\<lfloor>log 2 \<bar>x\<bar>\<rfloor> + 1)"
proof -
  have p: "0 < \<bar>x\<bar>" using assms by simp
  have "2 powr (of_int \<lfloor>log 2 \<bar>x\<bar>\<rfloor>) \<le> \<bar>x\<bar> \<and> \<bar>x\<bar> < 2 powr (of_int (\<lfloor>log 2 \<bar>x\<bar>\<rfloor> + 1))"
    using floor_log_eq_powr_iff[OF p, of 2 "\<lfloor>log 2 \<bar>x\<bar>\<rfloor>"] by simp
  then show "2 powi \<lfloor>log 2 \<bar>x\<bar>\<rfloor> \<le> \<bar>x\<bar>" "\<bar>x\<bar> < 2 powi (\<lfloor>log 2 \<bar>x\<bar>\<rfloor> + 1)"
    by (simp_all only: powr_real_of_int'[of 2, simplified])
qed

lemma floor_log2_eq:
  assumes "2 powi k \<le> \<bar>x\<bar>" "\<bar>x\<bar> < 2 powi (k + 1)"
  shows "\<lfloor>log 2 \<bar>x\<bar>\<rfloor> = k"
proof -
  have "0 < (2::real) powi k" by simp
  then have p: "0 < \<bar>x\<bar>" using assms(1) by linarith
  have "2 powr (of_int k) \<le> \<bar>x\<bar> \<and> \<bar>x\<bar> < 2 powr (of_int (k + 1))"
    using assms by (simp only: powr_real_of_int'[of 2, simplified])
  then show ?thesis using floor_log_eq_powr_iff[OF p, of 2 k] by simp
qed

lemma expo_ge: "- 1022 \<le> expo x"
  by (simp add: expo_def)

lemma expo_minus [simp]: "expo (- x) = expo x"
  by (simp add: expo_def)

lemma expo_upper: "\<bar>x\<bar> < 2 powi (expo x + 1)"
proof (cases "x = 0")
  case True
  then show ?thesis by simp
next
  case False
  have "\<bar>x\<bar> < 2 powi (\<lfloor>log 2 \<bar>x\<bar>\<rfloor> + 1)" by (rule floor_log2_bounds[OF False])
  also have "\<dots> \<le> 2 powi (expo x + 1)"
    using False by (intro power_int_increasing) (simp_all add: expo_def)
  finally show ?thesis .
qed

lemma expo_lower: 
  assumes "- 1022 < expo x" 
  shows "2 powi (expo x) \<le> \<bar>x\<bar>"
proof -
  have nz: "x \<noteq> 0" using assms by (auto simp: expo_def)
  then have "expo x = \<lfloor>log 2 \<bar>x\<bar>\<rfloor>" 
    using assms by (simp add: expo_def max_def split: if_splits)
  then show ?thesis using floor_log2_bounds(1)[OF nz] by simp
qed

lemma expo_normal:
  assumes "- 1022 \<le> k" "2 powi k \<le> \<bar>x\<bar>" "\<bar>x\<bar> < 2 powi (k + 1)"
  shows "expo x = k"
proof -
  have "0 < (2::real) powi k" by simp
  then have "0 < \<bar>x\<bar>" using assms(2) by linarith
  then have "x \<noteq> 0" by simp
  then show ?thesis using floor_log2_eq[OF assms(2,3)] assms(1) by (simp add: expo_def)
qed

lemma expo_subnormal:
  assumes "\<bar>x\<bar> < 2 powi (- 1022)"
  shows "expo x = - 1022"
proof (cases "x = 0")
  case True
  then show ?thesis by (simp add: expo_def)
next
  case False
  have "\<lfloor>log 2 \<bar>x\<bar>\<rfloor> < - 1022"
  proof (rule ccontr)
    assume "\<not> \<lfloor>log 2 \<bar>x\<bar>\<rfloor> < - 1022"
    then have "(2::real) powi (- 1022) \<le> 2 powi \<lfloor>log 2 \<bar>x\<bar>\<rfloor>"
      by (intro power_int_increasing) simp_all
    then show False using floor_log2_bounds(1)[OF False] assms by linarith
  qed
  then show ?thesis using False by (simp add: expo_def)
qed

lemma expo_mono: 
  assumes "\<bar>x\<bar> \<le> \<bar>y\<bar>" 
  shows "expo x \<le> expo y"
proof (rule ccontr)
  assume "\<not> expo x \<le> expo y"
  then have lt: "expo y + 1 \<le> expo x" by simp
  then have "- 1022 < expo x" using expo_ge[of y] by linarith
  then have "2 powi (expo x) \<le> \<bar>x\<bar>" by (rule expo_lower)
  moreover have "\<bar>y\<bar> < 2 powi (expo y + 1)" by (rule expo_upper)
  moreover have "(2::real) powi (expo y + 1) \<le> 2 powi (expo x)"
    using lt by (intro power_int_increasing) simp_all
  ultimately show False using assms by linarith
qed

lemma ulp_pos [simp]: "0 < ulp x"
  by (simp add: ulp_def)

lemma ulp_nonneg [simp]: "0 \<le> ulp x"
  by (simp add: ulp_def)

lemma ulp_neq_0 [simp]: "ulp x \<noteq> 0"
  by (simp add: ulp_def)

lemma ulp_minus [simp]: "ulp (- x) = ulp x"
  by (simp add: ulp_def)

lemma ulp_times_53: "ulp x * 2 ^ 53 = 2 powi (expo x + 1)"
proof -
  have e: "expo x + 1 = (expo x - 52) + 53" by simp
  have "(2::real) powi (expo x + 1) = 2 powi (expo x - 52) * 2 powi 53"
    by (subst e, subst power_int_add) simp_all
  then show ?thesis by (simp add: ulp_def)
qed

lemma ulp_times_52: "ulp x * 2 ^ 52 = 2 powi (expo x)"
proof -
  have e: "expo x = (expo x - 52) + 52" by simp
  have "(2::real) powi (expo x) = 2 powi (expo x - 52) * 2 powi 52"
    by (subst e, subst power_int_add) simp_all
  then show ?thesis by (simp add: ulp_def)
qed

lemma rnd_error: "\<bar>rnd x - x\<bar> \<le> ulp x / 2"
proof -
  have "\<bar>of_int (rne (x / ulp x)) - x / ulp x\<bar> * ulp x \<le> 1/2 * ulp x"
    by (intro mult_right_mono rne_error) simp
  moreover have "\<bar>of_int (rne (x / ulp x)) - x / ulp x\<bar> * ulp x = \<bar>rnd x - x\<bar>"
  proof -
    have "\<bar>of_int (rne (x / ulp x)) - x / ulp x\<bar> * ulp x
        = \<bar>(of_int (rne (x / ulp x)) - x / ulp x) * ulp x\<bar>"
      by (simp add: abs_mult)
    also have "(of_int (rne (x / ulp x)) - x / ulp x) * ulp x = rnd x - x"
      by (simp add: rnd_def left_diff_distrib)
    finally show ?thesis .
  qed
  ultimately show ?thesis by simp
qed

lemma rnd_minus: "rnd (- x) = - rnd x"
  by (simp add: rnd_def rne_minus)

lemma rne_0 [simp]: "rne 0 = 0"
  by (metis of_int_0 rne_of_int)

lemma rnd_0 [simp]: "rnd 0 = 0"
  by (simp add: rnd_def)

lemma rnd_mono_same:
  assumes "ulp x = ulp y" "x \<le> y" 
  shows "rnd x \<le> rnd y"
proof -
  have "x / ulp y \<le> y / ulp y" using assms(2) by (simp add: divide_right_mono)
  then have "rne (x / ulp y) \<le> rne (y / ulp y)" by (rule rne_mono)
  then have "(of_int (rne (x / ulp y)) :: real) \<le> of_int (rne (y / ulp y))" by simp
  then show ?thesis unfolding rnd_def assms(1) by (intro mult_right_mono) simp_all
qed

lemma rnd_nonneg: 
  assumes "0 \<le> x" 
  shows "0 \<le> rnd x"
proof -
  have "rne 0 \<le> rne (x / ulp x)" using assms by (intro rne_mono) simp
  then show ?thesis by (simp add: rnd_def)
qed

lemma rnd_upper: 
  assumes "0 \<le> x" 
  shows "rnd x \<le> 2 powi (expo x + 1)"
proof -
  have "x < 2 powi (expo x + 1)" using expo_upper[of x] assms by simp
  then have "x / ulp x \<le> 2 ^ 53" 
    unfolding ulp_times_53[symmetric] by (simp add: field_simps)
  then have "rne (x / ulp x) \<le> rne (of_int (2 ^ 53))" by (intro rne_mono) simp
  then have "rne (x / ulp x) \<le> 2 ^ 53" by (simp only: rne_of_int)
  then have "(of_int (rne (x / ulp x)) :: real) \<le> 2 ^ 53"
    by (metis of_int_le_iff of_int_numeral of_int_power)
  then have "rnd x \<le> 2 ^ 53 * ulp x" unfolding rnd_def by (intro mult_right_mono) simp_all
  then show ?thesis using ulp_times_53[of x] by (simp add: mult.commute)
qed

lemma rnd_lower: 
  assumes "0 \<le> x" "- 1022 < expo x" 
  shows "2 powi (expo x) \<le> rnd x"
proof -
  have "2 powi (expo x) \<le> x" using expo_lower[OF assms(2)] assms(1) by simp
  then have "2 ^ 52 \<le> x / ulp x" 
    unfolding ulp_times_52[symmetric] by (simp add: field_simps)
  then have "rne (of_int (2 ^ 52)) \<le> rne (x / ulp x)" by (intro rne_mono) simp
  then have "2 ^ 52 \<le> rne (x / ulp x)" by (simp only: rne_of_int)
  then have "(2 ^ 52 :: real) \<le> of_int (rne (x / ulp x))"
    by (metis of_int_le_iff of_int_numeral of_int_power)
  then have "2 ^ 52 * ulp x \<le> rnd x" unfolding rnd_def by (intro mult_right_mono) simp_all
  then show ?thesis using ulp_times_52[of x] by (simp add: mult.commute)
qed

lemma rnd_mono_nonneg: 
  assumes "0 \<le> x" "x \<le> y" 
  shows "rnd x \<le> rnd y"
proof (cases "expo x = expo y")
  case True
  then show ?thesis using assms(2) by (intro rnd_mono_same) (simp add: ulp_def)
next
  case False
  have "expo x \<le> expo y" using assms by (intro expo_mono) simp
  then have lt: "expo x + 1 \<le> expo y" using False by simp
  then have "- 1022 < expo y" using expo_ge[of x] by linarith
  then have "2 powi (expo y) \<le> rnd y" using assms by (intro rnd_lower) simp_all
  moreover have "rnd x \<le> 2 powi (expo x + 1)" using assms(1) by (rule rnd_upper)
  moreover have "(2::real) powi (expo x + 1) \<le> 2 powi (expo y)"
    using lt by (intro power_int_increasing) simp_all
  ultimately show ?thesis by linarith
qed

lemma rnd_mono: 
  assumes "x \<le> y" 
  shows "rnd x \<le> rnd y"
proof -
  consider "0 \<le> x" | "x < 0" "0 \<le> y" | "y < 0" by linarith
  then show ?thesis
  proof cases
    case 1
    then show ?thesis using assms by (rule rnd_mono_nonneg)
  next
    case 2
    have "0 \<le> rnd (- x)" using 2 by (intro rnd_nonneg) simp
    then have "rnd x \<le> 0" by (simp add: rnd_minus)
    moreover have "0 \<le> rnd y" using 2 by (intro rnd_nonneg)
    ultimately show ?thesis by linarith
  next
    case 3
    have "rnd (- y) \<le> rnd (- x)" using 3 assms by (intro rnd_mono_nonneg) simp_all
    then show ?thesis by (simp add: rnd_minus)
  qed
qed

text \<open>Certificates: the value of \<open>rnd\<close> at a given real, and the powers of two.\<close>

lemma rnd_normal_cert:
  assumes "- 1022 \<le> k" "2 powi k \<le> \<bar>x\<bar>" "\<bar>x\<bar> < 2 powi (k + 1)"
    and "\<bar>x / 2 powi (k - 52) - of_int m\<bar> < 1/2"
  shows "rnd x = of_int m * 2 powi (k - 52)"
proof -
  have "expo x = k" using assms(1-3) by (rule expo_normal)
  then have u: "ulp x = 2 powi (k - 52)" by (simp add: ulp_def)
  show ?thesis unfolding rnd_def u using rne_near[OF assms(4)] by simp
qed

lemma rnd_subnormal_cert:
  assumes "\<bar>x\<bar> < 2 powi (- 1022)"
    and "\<bar>x / 2 powi (- 1074) - of_int m\<bar> < 1/2"
  shows "rnd x = of_int m * 2 powi (- 1074)"
proof -
  have "expo x = - 1022" using assms(1) by (rule expo_subnormal)
  then have u: "ulp x = 2 powi (- 1074)" by (simp add: ulp_def)
  show ?thesis unfolding rnd_def u using rne_near[OF assms(2)] by simp
qed

lemma rnd_pow2:
  assumes "- 1074 \<le> k"
  shows "rnd (2 powi k) = 2 powi k"
proof (cases "- 1022 \<le> k")
  case True
  have "(2::real) powi k < 2 powi (k + 1)" by (intro power_int_strict_increasing) simp_all
  then have "expo (2 powi k) = k" using True by (intro expo_normal) simp_all
  then have u: "ulp (2 powi k) = 2 powi (k - 52)" by (simp add: ulp_def)
  have "(2::real) powi k / 2 powi (k - 52) = 2 powi (k - (k - 52))"
    by (subst power_int_diff) simp_all
  then have "(2::real) powi k / 2 powi (k - 52) = of_int (2 ^ 52)" by simp
  then have "rne (2 powi k / 2 powi (k - 52)) = 2 ^ 52" by (simp only: rne_of_int)
  then have "rnd (2 powi k) = 2 ^ 52 * 2 powi (k - 52)" unfolding rnd_def u by simp
  also have "\<dots> = 2 powi 52 * 2 powi (k - 52)" by simp
  also have "\<dots> = 2 powi (52 + (k - 52))" by (subst power_int_add) simp_all
  finally show ?thesis by simp
next
  case False
  then have "(2::real) powi k < 2 powi (- 1022)"
    by (intro power_int_strict_increasing) simp_all
  then have "expo (2 powi k) = - 1022" by (intro expo_subnormal) simp
  then have u: "ulp (2 powi k) = 2 powi (- 1074)" by (simp add: ulp_def)
  have "(2::real) powi k / 2 powi (- 1074) = 2 powi (k - (- 1074))"
    by (subst power_int_diff) simp_all
  also have "\<dots> = 2 ^ nat (k + 1074)" using assms by (simp add: power_int_def)
  also have "\<dots> = of_int (2 ^ nat (k + 1074))" by simp
  finally have "rne (2 powi k / 2 powi (- 1074)) = 2 ^ nat (k + 1074)"
    by (simp only: rne_of_int)
  then have "rnd (2 powi k) = 2 ^ nat (k + 1074) * 2 powi (- 1074)" unfolding rnd_def u by simp
  also have "\<dots> = 2 powi (k + 1074) * 2 powi (- 1074)" 
    using assms by (simp add: power_int_def)
  also have "\<dots> = 2 powi ((k + 1074) + (- 1074))" by (subst power_int_add) simp_all
  finally show ?thesis by simp
qed

lemma js_le_trans: "js_le x y \<Longrightarrow> js_le y z \<Longrightarrow> js_le x z"
  by (cases x; cases y; cases z) simp_all

lemma js_le_refl: "x \<noteq> NaN \<Longrightarrow> js_le x x"
  by (cases x) simp_all

lemma rnd_abs_le_pow2:
  assumes "\<bar>x\<bar> \<le> 2 powi k" "- 1074 \<le> k"
  shows "\<bar>rnd x\<bar> \<le> 2 powi k"
proof -
  have "rnd x \<le> rnd (2 powi k)" using assms(1) by (intro rnd_mono) linarith
  moreover have "rnd (- (2 powi k)) \<le> rnd x" using assms(1) by (intro rnd_mono) linarith
  ultimately show ?thesis using rnd_pow2[OF assms(2)] by (simp add: rnd_minus abs_le_iff)
qed

lemma rnd_ge_pow2:
  assumes "2 powi k \<le> x" "- 1074 \<le> k"
  shows "2 powi k \<le> rnd x"
  using rnd_mono[OF assms(1)] rnd_pow2[OF assms(2)] by simp

lemma rnd_le_pow2:
  assumes "x \<le> 2 powi k" "- 1074 \<le> k"
  shows "rnd x \<le> 2 powi k"
  using rnd_mono[OF assms(1)] rnd_pow2[OF assms(2)] by simp

lemma pow2_1023_less: "(2::real) powi 1023 < 2 ^ 1024"
proof -
  have "(2::real) powi 1023 < 2 powi 1024" by (intro power_int_strict_increasing) simp_all
  then show ?thesis by simp
qed

lemma fl64_finite:
  assumes "\<bar>x\<bar> \<le> 2 powi 1023"
  shows "fl64 x = Fin (rnd x)"
proof -
  have "\<bar>rnd x\<bar> \<le> 2 powi 1023" using assms by (intro rnd_abs_le_pow2) simp_all
  then have "\<not> 2 ^ 1024 \<le> \<bar>rnd x\<bar>" using pow2_1023_less by linarith
  then show ?thesis by (simp add: fl64_def)
qed

lemma fl64_not_NaN [simp]: "fl64 x \<noteq> NaN"
proof (cases "x = 0")
  case True
  then show ?thesis by (simp add: fl64_def)
next
  case False
  then show ?thesis by (simp add: fl64_def inf_of_sign_def)
qed

lemma fl64_0 [simp]: "fl64 0 = Fin 0"
  by (simp add: fl64_def)

lemma fl64_mono:
  assumes "x \<le> y"
  shows "js_le (fl64 x) (fl64 y)"
proof -
  have m: "rnd x \<le> rnd y" using assms by (rule rnd_mono)
  show ?thesis
  proof (cases "2 ^ 1024 \<le> \<bar>rnd x\<bar>")
    case True
    then have nz: "x \<noteq> 0" by auto
    show ?thesis
    proof (cases "0 < x")
      case True
      then have "0 \<le> rnd x" by (intro rnd_nonneg) simp
      then have "2 ^ 1024 \<le> rnd x" using \<open>2 ^ 1024 \<le> \<bar>rnd x\<bar>\<close> by linarith
      then have "2 ^ 1024 \<le> \<bar>rnd y\<bar>" using m by linarith
      moreover have "0 < y" using True assms by linarith
      ultimately show ?thesis
        using True \<open>2 ^ 1024 \<le> \<bar>rnd x\<bar>\<close> by (simp add: fl64_def inf_of_sign_def)
    next
      case False
      then have "x < 0" using nz by linarith
      then have "fl64 x = NInf" using True by (simp add: fl64_def inf_of_sign_def)
      then show ?thesis using fl64_not_NaN[of y] by (cases "fl64 y") simp_all
    qed
  next
    case False
    then have fx: "fl64 x = Fin (rnd x)" by (simp add: fl64_def)
    show ?thesis
    proof (cases "2 ^ 1024 \<le> \<bar>rnd y\<bar>")
      case True
      then have nz: "y \<noteq> 0" by auto
      have "0 < y"
      proof (rule ccontr)
        assume "\<not> 0 < y"
        then have "y < 0" using nz by linarith
        then have "0 \<le> rnd (- y)" by (intro rnd_nonneg) simp
        then have "rnd y \<le> - (2 ^ 1024)" using True by (simp add: rnd_minus)
        then show False using m False by linarith
      qed
      then have "fl64 y = PInf" using True by (simp add: fl64_def inf_of_sign_def)
      then show ?thesis using fx by simp
    next
      case False
      then show ?thesis using fx m by (simp add: fl64_def)
    qed
  qed
qed

lemma fl64_overflow:
  assumes "2 ^ 1024 \<le> x"
  shows "fl64 x = PInf"
proof -
  have "(2::real) powi 1024 \<le> x" using assms by simp
  then have "2 powi 1024 \<le> rnd x" by (intro rnd_ge_pow2) simp_all
  then have "2 ^ 1024 \<le> \<bar>rnd x\<bar>" by simp
  moreover have "0 < (2::real) ^ 1024" by simp
  then have "0 < x" using assms by linarith
  ultimately show ?thesis by (simp add: fl64_def inf_of_sign_def)
qed

lemma rnd_rel_error:
  assumes "2 powi (- 1022) \<le> \<bar>x\<bar>"
  shows "\<bar>rnd x - x\<bar> \<le> \<bar>x\<bar> / 2 ^ 53"
proof -
  have l: "2 powi (expo x) \<le> \<bar>x\<bar>"
  proof (cases "- 1022 < expo x")
    case True
    then show ?thesis by (rule expo_lower)
  next
    case False
    then have "expo x = - 1022" using expo_ge[of x] by linarith
    then show ?thesis using assms by simp
  qed
  have "ulp x * 2 ^ 52 \<le> \<bar>x\<bar>" using l by (simp only: ulp_times_52)
  then have "ulp x / 2 \<le> \<bar>x\<bar> / 2 ^ 53" by (simp add: field_simps)
  then show ?thesis using rnd_error[of x] by linarith
qed

lemma rnd_abs_error: "\<bar>rnd x - x\<bar> \<le> \<bar>x\<bar> / 2 ^ 53 + 2 powi (- 1075)"
proof (cases "2 powi (- 1022) \<le> \<bar>x\<bar>")
  case True
  have "(0::real) \<le> 2 powi (- 1075)" by simp
  then show ?thesis using rnd_rel_error[OF True] by linarith
next
  case False
  then have "expo x = - 1022" by (intro expo_subnormal) simp
  then have "ulp x = 2 powi (- 1074)" by (simp add: ulp_def)
  moreover have "(2::real) powi (- 1074) / 2 = 2 powi (- 1075)"
  proof -
    have "(2::real) powi (- 1074) = 2 powi (- 1075 + 1)" by simp
    also have "\<dots> = 2 powi (- 1075) * 2 powi 1" by (subst power_int_add) simp_all
    finally show ?thesis by simp
  qed
  ultimately have "\<bar>rnd x - x\<bar> \<le> 2 powi (- 1075)" using rnd_error[of x] by simp
  moreover have "0 \<le> \<bar>x\<bar> / 2 ^ 53" by simp
  ultimately show ?thesis by linarith
qed

text \<open>The operations on finite arguments.\<close>

lemma d_div_Fin: "b \<noteq> 0 \<Longrightarrow> d_div (Fin a) (Fin b) = fl64 (a / b)"
  by (simp add: d_div_def)

lemma d_mul_Fin: "d_mul (Fin a) (Fin b) = fl64 (a * b)"
  by (simp add: d_mul_def)

lemma d_add_Fin: "d_add (Fin a) (Fin b) = fl64 (a + b)"
  by (simp add: d_add_def)

lemma d_sub_Fin: "d_sub (Fin a) (Fin b) = fl64 (a - b)"
  by (simp add: d_sub_def js_sub_def)

section \<open>Properties of the calculations on doubles\<close>

subsection \<open>The coupling factor\<close>

lemma fl64_pow2:
  assumes "- 1074 \<le> k" "k \<le> 1023"
  shows "fl64 (2 powi k) = Fin (2 powi k)"
proof -
  have "(2::real) powi k \<le> 2 powi 1023" using assms(2) by (intro power_int_increasing) simp_all
  then have "\<bar>(2::real) powi k\<bar> \<le> 2 powi 1023" by simp
  then show ?thesis using rnd_pow2[OF assms(1)] by (simp add: fl64_finite)
qed

lemma fl64_1 [simp]: "fl64 1 = Fin 1"
  using fl64_pow2[of 0] by simp

lemma fl64_2 [simp]: "fl64 2 = Fin 2"
  using fl64_pow2[of 1] by simp

lemma fl64_half [simp]: "fl64 (1/2) = Fin (1/2)"
  using fl64_pow2[of "-1"] by (simp add: power_int_minus_divide)

lemma fl64_cert:
  assumes "- 1022 \<le> k" "k \<le> 1022" "2 powi k \<le> \<bar>x\<bar>" "\<bar>x\<bar> < 2 powi (k + 1)"
    and "\<bar>x / 2 powi (k - 52) - of_int m\<bar> < 1/2"
  shows "fl64 x = Fin (of_int m * 2 powi (k - 52))"
proof -
  have "(2::real) powi (k + 1) \<le> 2 powi 1023" 
    using assms(2) by (intro power_int_increasing) simp_all
  then have "\<bar>x\<bar> \<le> 2 powi 1023" using assms(4) by linarith
  then show ?thesis using rnd_normal_cert[OF assms(1,3,4,5)] by (simp add: fl64_finite)
qed

lemma fl64_three_halves [simp]: "fl64 (3/2) = Fin (3/2)"
  using fl64_cert[of 0 "3/2" "3 * 2 ^ 51"] by (simp add: power_int_minus_divide)

lemma d_lit_order:
  "js_le (Fin 0) (d_lit (1/10))" "js_le (d_lit (1/10)) (d_lit (2/10))"
  "js_le (d_lit (2/10)) (d_lit (35/100))" "js_le (d_lit (35/100)) (Fin (1/2))"
  "js_le (Fin (1/2)) (d_lit (7/10))" "js_le (d_lit (7/10)) (Fin 1)"
proof -
  show "js_le (Fin 0) (d_lit (1/10))" using fl64_mono[of 0 "1/10"] by (simp add: d_lit_def)
  show "js_le (d_lit (1/10)) (d_lit (2/10))" unfolding d_lit_def by (rule fl64_mono) simp
  show "js_le (d_lit (2/10)) (d_lit (35/100))" unfolding d_lit_def by (rule fl64_mono) simp
  show "js_le (d_lit (35/100)) (Fin (1/2))" using fl64_mono[of "35/100" "1/2"] by (simp add: d_lit_def)
  show "js_le (Fin (1/2)) (d_lit (7/10))" using fl64_mono[of "1/2" "7/10"] by (simp add: d_lit_def)
  show "js_le (d_lit (7/10)) (Fin 1)" using fl64_mono[of "7/10" 1] by (simp add: d_lit_def)
qed

lemma d_lit_not_NaN [simp]: "d_lit x \<noteq> NaN"
  by (simp add: d_lit_def)

text \<open>The chain of comparisons, as a function of the computed quotient.\<close>

lemma coupling64_of_ratio:
  "getCouplingFactor64 spacing length' =
     (let ratio = d_div spacing length' in
      if js_le (Fin 2) ratio then Fin 0
      else if js_le (Fin (3/2)) ratio then d_lit (1/10)
      else if js_le (Fin 1) ratio then d_lit (2/10)
      else if js_le (d_lit (7/10)) ratio then d_lit (35/100)
      else if js_le (Fin (1/2)) ratio then Fin (1/2)
      else d_lit (7/10))"
  unfolding getCouplingFactor64_def js_ge_def by (rule refl)

lemma coupling_chain_antimono:
  assumes "js_le q q'"
  shows "js_le
     (if js_le (Fin 2) q' then Fin 0
      else if js_le (Fin (3/2)) q' then d_lit (1/10)
      else if js_le (Fin 1) q' then d_lit (2/10)
      else if js_le (d_lit (7/10)) q' then d_lit (35/100)
      else if js_le (Fin (1/2)) q' then Fin (1/2)
      else d_lit (7/10))
     (if js_le (Fin 2) q then Fin 0
      else if js_le (Fin (3/2)) q then d_lit (1/10)
      else if js_le (Fin 1) q then d_lit (2/10)
      else if js_le (d_lit (7/10)) q then d_lit (35/100)
      else if js_le (Fin (1/2)) q then Fin (1/2)
      else d_lit (7/10))"
proof -
  note o = d_lit_order
  have up: "\<And>t. js_le t q \<Longrightarrow> js_le t q'" using assms js_le_trans by blast
  have v01: "js_le (Fin 0) (d_lit (1/10))" by (rule o)
  have v02: "js_le (Fin 0) (d_lit (2/10))" using o js_le_trans by blast
  have v03: "js_le (Fin 0) (d_lit (35/100))" using o js_le_trans by blast
  have v04: "js_le (Fin 0) (Fin (1/2))" by simp
  have v05: "js_le (Fin 0) (d_lit (7/10))" using o js_le_trans by blast
  have v12: "js_le (d_lit (1/10)) (d_lit (2/10))" by (rule o)
  have v13: "js_le (d_lit (1/10)) (d_lit (35/100))" using o js_le_trans by blast
  have v14: "js_le (d_lit (1/10)) (Fin (1/2))" using o js_le_trans by blast
  have v15: "js_le (d_lit (1/10)) (d_lit (7/10))" using o js_le_trans by blast
  have v23: "js_le (d_lit (2/10)) (d_lit (35/100))" by (rule o)
  have v24: "js_le (d_lit (2/10)) (Fin (1/2))" using o js_le_trans by blast
  have v25: "js_le (d_lit (2/10)) (d_lit (7/10))" using o js_le_trans by blast
  have v34: "js_le (d_lit (35/100)) (Fin (1/2))" by (rule o)
  have v35: "js_le (d_lit (35/100)) (d_lit (7/10))" using o js_le_trans by blast
  have v45: "js_le (Fin (1/2)) (d_lit (7/10))" by (rule o)
  have r: "\<And>x. js_le (d_lit x) (d_lit x)" by (simp add: js_le_refl)
  show ?thesis
    using up[of "Fin 2"] up[of "Fin (3/2)"] up[of "Fin 1"] up[of "d_lit (7/10)"]
      up[of "Fin (1/2)"]
      v01 v02 v03 v04 v05 v12 v13 v14 v15 v23 v24 v25 v34 v35 v45 r
    by (simp split: if_splits)
qed

lemma js_le_Fin_trans_not:
  "js_le a b \<Longrightarrow> \<not> js_le a q \<Longrightarrow> \<not> js_le b q"
  using js_le_trans by blast

text \<open>
  C6, amended. The code reads the table at the quotient \<open>spacing / length\<close> as the
  division rounds it to a double, not at the exact ratio. For a positive spacing and
  length, the computed quotient is the exact ratio rounded; each row of the table holds
  for the computed quotient (at least 2 gives 0; from 1.5 to 2 gives 0.1; from 1 to 1.5
  gives 0.2; from 0.7 to 1 gives 0.35; from 0.5 to 0.7 gives 0.5; below 0.5 gives 0.7);
  an exact ratio of at least 2 gives 0; two pairs with the same exact ratio get the same
  factor; and a larger exact ratio never gets a larger factor.
\<close>

theorem coupling_factor64_table:
  assumes "0 < s" "0 < l" "0 < s'" "0 < l'"
  shows "(let ratio = d_div (Fin s) (Fin l); f = getCouplingFactor64 (Fin s) (Fin l)
          in ratio = fl64 (s / l)
           \<and> (js_ge ratio (Fin 2) \<longrightarrow> f = Fin 0)
           \<and> (js_ge ratio (Fin (3/2)) \<and> \<not> js_ge ratio (Fin 2) \<longrightarrow> f = d_lit (1/10))
           \<and> (js_ge ratio (Fin 1) \<and> \<not> js_ge ratio (Fin (3/2)) \<longrightarrow> f = d_lit (2/10))
           \<and> (js_ge ratio (d_lit (7/10)) \<and> \<not> js_ge ratio (Fin 1) \<longrightarrow> f = d_lit (35/100))
           \<and> (js_ge ratio (Fin (1/2)) \<and> \<not> js_ge ratio (d_lit (7/10)) \<longrightarrow> f = Fin (1/2))
           \<and> (\<not> js_ge ratio (Fin (1/2)) \<longrightarrow> f = d_lit (7/10))
           \<and> (2 \<le> s / l \<longrightarrow> f = Fin 0))
    \<and> (s / l = s' / l' \<longrightarrow>
          getCouplingFactor64 (Fin s) (Fin l) = getCouplingFactor64 (Fin s') (Fin l'))
    \<and> (s / l \<le> s' / l' \<longrightarrow>
          js_le (getCouplingFactor64 (Fin s') (Fin l')) (getCouplingFactor64 (Fin s) (Fin l)))"
proof -
  define q where "q = fl64 (s / l)"
  define q' where "q' = fl64 (s' / l')"
  have d: "d_div (Fin s) (Fin l) = q" "d_div (Fin s') (Fin l') = q'"
    using assms by (simp_all add: d_div_Fin q_def q'_def)
  have n1: "\<not> js_le (Fin 1) q \<Longrightarrow> \<not> js_le (Fin (3/2)) q \<and> \<not> js_le (Fin 2) q"
    using js_le_Fin_trans_not[of "Fin 1" "Fin (3/2)" q] js_le_Fin_trans_not[of "Fin 1" "Fin 2" q]
    by simp
  have n15: "\<not> js_le (Fin (3/2)) q \<Longrightarrow> \<not> js_le (Fin 2) q"
    using js_le_Fin_trans_not[of "Fin (3/2)" "Fin 2" q] by simp
  have n07: "\<not> js_le (d_lit (7/10)) q \<Longrightarrow> \<not> js_le (Fin 1) q"
    using js_le_Fin_trans_not[OF d_lit_order(6)] by blast
  have n05: "\<not> js_le (Fin (1/2)) q \<Longrightarrow> \<not> js_le (d_lit (7/10)) q"
    using js_le_Fin_trans_not[OF d_lit_order(5)] by blast
  have top: "2 \<le> s / l \<Longrightarrow> js_le (Fin 2) q"
    using fl64_mono[of 2 "s / l"] by (simp add: q_def)
  have rows: "(js_ge q (Fin 2) \<longrightarrow> getCouplingFactor64 (Fin s) (Fin l) = Fin 0)
           \<and> (js_ge q (Fin (3/2)) \<and> \<not> js_ge q (Fin 2)
                \<longrightarrow> getCouplingFactor64 (Fin s) (Fin l) = d_lit (1/10))
           \<and> (js_ge q (Fin 1) \<and> \<not> js_ge q (Fin (3/2))
                \<longrightarrow> getCouplingFactor64 (Fin s) (Fin l) = d_lit (2/10))
           \<and> (js_ge q (d_lit (7/10)) \<and> \<not> js_ge q (Fin 1)
                \<longrightarrow> getCouplingFactor64 (Fin s) (Fin l) = d_lit (35/100))
           \<and> (js_ge q (Fin (1/2)) \<and> \<not> js_ge q (d_lit (7/10))
                \<longrightarrow> getCouplingFactor64 (Fin s) (Fin l) = Fin (1/2))
           \<and> (\<not> js_ge q (Fin (1/2)) \<longrightarrow> getCouplingFactor64 (Fin s) (Fin l) = d_lit (7/10))
           \<and> (2 \<le> s / l \<longrightarrow> getCouplingFactor64 (Fin s) (Fin l) = Fin 0)"
    unfolding coupling64_of_ratio d(1) Let_def js_ge_def
    using n1 n15 n07 n05 top by auto
  have same: "s / l = s' / l' \<longrightarrow>
          getCouplingFactor64 (Fin s) (Fin l) = getCouplingFactor64 (Fin s') (Fin l')"
    unfolding coupling64_of_ratio d Let_def by (simp add: q_def q'_def)
  have mono: "s / l \<le> s' / l' \<longrightarrow>
          js_le (getCouplingFactor64 (Fin s') (Fin l')) (getCouplingFactor64 (Fin s) (Fin l))"
  proof
    assume "s / l \<le> s' / l'"
    then have "js_le q q'" unfolding q_def q'_def by (rule fl64_mono)
    then show "js_le (getCouplingFactor64 (Fin s') (Fin l')) (getCouplingFactor64 (Fin s) (Fin l))"
      unfolding coupling64_of_ratio d Let_def by (rule coupling_chain_antimono)
  qed
  show ?thesis
    unfolding Let_def d(1) using rows same mono q_def by blast
qed

lemma d_lit_tenth_neq: "d_lit (1/10) \<noteq> d_lit (2/10)"
proof -
  have n: "(2::real) powi (- 1022) \<le> 1/10" "(2::real) powi (- 1022) \<le> 2/10"
    by (simp_all add: power_int_minus_divide)
  have a: "\<bar>rnd (1/10) - 1/10\<bar> \<le> 1 / 2 ^ 53"
    using rnd_rel_error[of "1/10"] n by simp
  have b: "\<bar>rnd (2/10) - 2/10\<bar> \<le> 1 / 2 ^ 53"
    using rnd_rel_error[of "2/10"] n by simp
  have "(1 / 2 ^ 53 :: real) < 1/100" by simp
  then have "rnd (1/10) < rnd (2/10)" using a b by linarith
  then have "rnd (1/10) \<noteq> rnd (2/10)" by simp
  moreover have "fl64 (1/10) = Fin (rnd (1/10))" by (rule fl64_finite) simp
  moreover have "fl64 (2/10) = Fin (rnd (2/10))" by (rule fl64_finite) simp
  ultimately show ?thesis by (simp add: d_lit_def)
qed

text \<open>
  C6, as the claim states it, fails on doubles. For the spacing \<open>3/2 + 1/2^52\<close> and the
  length \<open>1 + 1/2^52\<close>, both doubles, the exact ratio lies in the row from 1 to 1.5, whose
  factor is 0.2, but the quotient rounds to 1.5 and the code returns 0.1.
\<close>

theorem coupling_factor_table_counterexample:
  "1 \<le> (3/2 + 1/2^52) / (1 + 1/2^52 :: real)
   \<and> (3/2 + 1/2^52) / (1 + 1/2^52 :: real) < 3/2
   \<and> getCouplingFactor64 (Fin (3/2 + 1/2^52)) (Fin (1 + 1/2^52)) = d_lit (1/10)
   \<and> d_lit (1/10) \<noteq> d_lit (2/10)"
proof -
  let ?x = "(3/2 + 1/2^52) / (1 + 1/2^52 :: real)"
  have x: "1 \<le> ?x" "?x < 3/2" by simp_all
  have "fl64 ?x = Fin (of_int (3 * 2 ^ 51) * 2 powi (0 - 52))"
    by (rule fl64_cert) (simp_all add: power_int_minus_divide)
  then have q: "d_div (Fin (3/2 + 1/2^52)) (Fin (1 + 1/2^52)) = Fin (3/2)"
    by (simp add: d_div_Fin power_int_minus_divide)
  have "getCouplingFactor64 (Fin (3/2 + 1/2^52)) (Fin (1 + 1/2^52)) = d_lit (1/10)"
    unfolding coupling64_of_ratio q Let_def by simp
  then show ?thesis using x d_lit_tenth_neq by blast
qed

theorem coupling_factor64_table_witness:
  "getCouplingFactor64 (Fin 3) (Fin 2) = d_lit (1/10)
   \<and> getCouplingFactor64 (Fin 3) (Fin 2) = getCouplingFactor64 (Fin 6) (Fin 4)
   \<and> js_le (getCouplingFactor64 (Fin 2) (Fin 1)) (getCouplingFactor64 (Fin 3) (Fin 2))
   \<and> getCouplingFactor64 (Fin 2) (Fin 1) = Fin 0"
  using coupling_factor64_table[of 3 2 6 4] coupling_factor64_table[of 3 2 2 1]
    coupling_factor64_table[of 2 1 2 1] d_lit_order(1)
  by (simp add: Let_def js_ge_def)

subsection \<open>Rods in parallel\<close>

lemma fl64_normal:
  assumes "2 powi (- 1022) \<le> x" "x \<le> 2 powi 1023"
  shows "fl64 x = Fin (rnd x)" "x * (1 - 1 / 2 ^ 53) \<le> rnd x" "rnd x \<le> x * (1 + 1 / 2 ^ 53)"
proof -
  define t where "t = x / 2 ^ 53"
  have "0 < (2::real) powi (- 1022)" by simp
  then have p: "0 < x" using assms(1) by linarith
  then have ax: "\<bar>x\<bar> = x" by simp
  show "fl64 x = Fin (rnd x)" using assms(2) ax by (intro fl64_finite) simp
  have "\<bar>rnd x - x\<bar> \<le> \<bar>x\<bar> / 2 ^ 53" using assms(1) ax by (intro rnd_rel_error) simp
  then have e: "\<bar>rnd x - x\<bar> \<le> t" using ax by (simp add: t_def)
  have eq: "x * (1 - 1 / 2 ^ 53) = x - t" "x * (1 + 1 / 2 ^ 53) = x + t"
    by (simp_all add: algebra_simps t_def)
  show "x * (1 - 1 / 2 ^ 53) \<le> rnd x" unfolding eq using e by linarith
  show "rnd x \<le> x * (1 + 1 / 2 ^ 53)" unfolding eq using e by linarith
qed

lemma fl64_nonneg:
  assumes "0 \<le> x" "x \<le> 2 powi 1023"
  shows "fl64 x = Fin (rnd x)" "0 \<le> rnd x"
    "x * (1 - 1 / 2 ^ 53) - 2 powi (- 1075) \<le> rnd x"
    "rnd x \<le> x * (1 + 1 / 2 ^ 53) + 2 powi (- 1075)"
proof -
  define t where "t = x / 2 ^ 53"
  define h :: real where "h = 2 powi (- 1075)"
  have ax: "\<bar>x\<bar> = x" using assms(1) by simp
  show "fl64 x = Fin (rnd x)" using assms(2) ax by (intro fl64_finite) simp
  show "0 \<le> rnd x" using assms(1) by (rule rnd_nonneg)
  have e: "\<bar>rnd x - x\<bar> \<le> t + h"
    using rnd_abs_error[of x] ax by (simp add: t_def h_def)
  have eq: "x * (1 - 1 / 2 ^ 53) = x - t" "x * (1 + 1 / 2 ^ 53) = x + t"
    by (simp_all add: algebra_simps t_def)
  show "x * (1 - 1 / 2 ^ 53) - 2 powi (- 1075) \<le> rnd x"
    unfolding eq h_def[symmetric] using e by linarith
  show "rnd x \<le> x * (1 + 1 / 2 ^ 53) + 2 powi (- 1075)"
    unfolding eq h_def[symmetric] using e by linarith
qed

text \<open>Numerical facts about the unit roundoff and the range of the doubles.\<close>

lemma roundoff_facts:
  fixes U L h :: real
  defines "U \<equiv> 1 + 1 / 2 ^ 53" and "L \<equiv> 1 - 1 / 2 ^ 53" and "h \<equiv> 2 powi (- 1075)"
  shows "1 \<le> U" "U \<le> 11/10" "1/2 \<le> L" "L \<le> 1" "0 \<le> h" "h \<le> 1 / 2 ^ 53"
    "(U * U + h) * (U * (U * U)) \<le> 1 + 1 / 2 ^ 50"
    "1 - 1 / 2 ^ 50 \<le> (L * L - h) * (L * (L * L))"
proof -
  show u: "1 \<le> U" "U \<le> 11/10" "1/2 \<le> L" "L \<le> 1" by (simp_all add: U_def L_def)
  show h: "0 \<le> h" "h \<le> 1 / 2 ^ 53" by (simp_all add: h_def power_int_minus_divide)
  have "(U * U + h) * (U * (U * U)) \<le> (U * U + 1 / 2 ^ 53) * (U * (U * U))"
    using h u by (intro mult_right_mono) simp_all
  also have "\<dots> \<le> 1 + 1 / 2 ^ 50" by (simp add: U_def)
  finally show "(U * U + h) * (U * (U * U)) \<le> 1 + 1 / 2 ^ 50" .
  have "1 - 1 / 2 ^ 50 \<le> (L * L - 1 / 2 ^ 53) * (L * (L * L))" by (simp add: L_def)
  also have "\<dots> \<le> (L * L - h) * (L * (L * L))"
    using h u by (intro mult_right_mono) simp_all
  finally show "1 - 1 / 2 ^ 50 \<le> (L * L - h) * (L * (L * L))" .
qed

lemma range_facts:
  fixes lo hi :: real
  defines "lo \<equiv> 2 powi (- 1022)" and "hi \<equiv> 2 powi 1023"
  shows "0 < lo" "lo \<le> 1/4" "10000000 \<le> hi" 
    "2 powi (- 1000) = lo * 2 ^ 22" "2 powi 1000 * 2 ^ 23 = hi"
  by (simp_all add: lo_def hi_def power_int_minus_divide)

lemma parallel64_enclosure:
  assumes R: "2 powi (- 1000) \<le> R" "R \<le> 2 powi 1000"
    and n: "2 \<le> n" "n \<le> 1000001"
    and c: "0 \<le> c" "c \<le> 7/10"
  shows "\<exists>P. calculateParallelResistance64 (Fin R) (Fin n) (Fin c) = Fin P
      \<and> R / n * (1 + c * (n - 1)) * (1 - 1 / 2 ^ 50) \<le> P
      \<and> P \<le> R / n * (1 + c * (n - 1)) * (1 + 1 / 2 ^ 50)"
proof -
  define U :: real where "U = 1 + 1 / 2 ^ 53"
  define L :: real where "L = 1 - 1 / 2 ^ 53"
  define h :: real where "h = 2 powi (- 1075)"
  define lo :: real where "lo = 2 powi (- 1022)"
  define hi :: real where "hi = 2 powi 1023"
  note rf = roundoff_facts[folded U_def L_def h_def]
  note rg = range_facts[folded lo_def hi_def]
  note nb = fl64_normal[folded U_def L_def lo_def hi_def]
  note sb = fl64_nonneg[folded U_def L_def h_def hi_def]
  have U1: "1 \<le> U" "U \<le> 11/10" and L1: "1/2 \<le> L" "L \<le> 1" and h1: "0 \<le> h" "h \<le> 1/8"
  proof -
    show "1 \<le> U" "U \<le> 11/10" "1/2 \<le> L" "L \<le> 1" "0 \<le> h" by (rule rf)+
    have "(1 / 2 ^ 53 :: real) \<le> 1/8" by simp
    then show "h \<le> 1/8" using rf(6) by (rule order_trans[rotated])
  qed
  have Rlo: "lo * 4194304 \<le> R" and Rhi: "R * 8388608 \<le> hi" and Rpos: "0 < R"
    using R rg by simp_all
  have npos: "0 < n" using n by linarith
  \<comment> \<open>the quotient \<open>R / n\<close>\<close>
  define x1 where "x1 = R / n"
  define a where "a = rnd x1"
  have x1lo: "4 * lo \<le> x1"
  proof -
    have "4 * lo * n \<le> 4 * lo * 1000001" using n rg(1) by (intro mult_left_mono) simp_all
    also have "\<dots> \<le> lo * 4194304" using rg(1) by simp
    finally have "4 * lo * n \<le> R" using Rlo by linarith
    then show ?thesis using npos by (simp add: x1_def pos_le_divide_eq)
  qed
  have x1hi: "x1 * 16777216 \<le> hi"
  proof -
    have "R / n \<le> R / 2" using Rpos n by (intro frac_le) simp_all
    then have "x1 * 16777216 \<le> (R / 2) * 16777216"
      unfolding x1_def by (intro mult_right_mono) simp_all
    also have "\<dots> = R * 8388608" by simp
    finally show ?thesis using Rhi by (rule order_trans)
  qed
  have x1pos: "0 \<le> x1" using x1lo rg(1) by linarith
  have a: "fl64 x1 = Fin a" "x1 * L \<le> a" "a \<le> x1 * U"
    unfolding a_def using x1lo x1hi rg(1) x1pos by (intro nb; linarith)+
  \<comment> \<open>the difference \<open>n - 1\<close>\<close>
  define x2 where "x2 = n - 1"
  define m where "m = rnd x2"
  have x2: "1 \<le> x2" "x2 \<le> 1000000" using n by (simp_all add: x2_def)
  have m: "fl64 x2 = Fin m" "x2 * L \<le> m" "m \<le> x2 * U"
    unfolding m_def using x2 rg by (intro nb; linarith)+
  have mpos: "0 \<le> m"
  proof -
    have "0 \<le> x2 * L" using x2 U1 L1 h1 by (intro mult_nonneg_nonneg) linarith+
    then show ?thesis using m(2) by linarith
  qed
  have mhi: "m \<le> 1100000"
  proof -
    have "x2 * U \<le> 1000000 * (11/10)" using x2 U1 L1 h1 by (intro mult_mono) linarith+
    then show ?thesis using m(3) by linarith
  qed
  \<comment> \<open>the product \<open>c * (n - 1)\<close>\<close>
  define y where "y = c * x2"
  define x3 where "x3 = c * m"
  define b where "b = rnd x3"
  have ypos: "0 \<le> y" using c x2 by (simp add: y_def)
  have x3pos: "0 \<le> x3" using c mpos by (simp add: x3_def)
  have x3hi: "x3 \<le> 770000"
  proof -
    have "c * m \<le> (7/10) * 1100000" using c mpos mhi by (intro mult_mono) linarith+
    then show ?thesis by (simp add: x3_def)
  qed
  have x3y: "y * L \<le> x3" "x3 \<le> y * U"
  proof -
    have "c * (x2 * L) \<le> c * m" using c m(2) by (intro mult_left_mono)
    then show "y * L \<le> x3" by (simp add: y_def x3_def mult.assoc)
    have "c * m \<le> c * (x2 * U)" using c m(3) by (intro mult_left_mono)
    then show "x3 \<le> y * U" by (simp add: y_def x3_def mult.assoc)
  qed
  have b: "fl64 x3 = Fin b" "0 \<le> b" "x3 * L - h \<le> b" "b \<le> x3 * U + h"
    unfolding b_def using x3pos x3hi rg by (intro sb; linarith)+
  have bhi: "b \<le> 900000"
  proof -
    have "x3 * U \<le> 770000 * (11/10)" using x3pos x3hi U1 L1 h1 by (intro mult_mono) linarith+
    then show ?thesis using b(4) U1 L1 h1 by linarith
  qed
  \<comment> \<open>the sum \<open>1 + c * (n - 1)\<close>\<close>
  define x4 where "x4 = 1 + b"
  define s where "s = rnd x4"
  have x4: "1 \<le> x4" "x4 \<le> 900001" using b(2) bhi by (simp_all add: x4_def)
  have s: "fl64 x4 = Fin s" "x4 * L \<le> s" "s \<le> x4 * U"
    unfolding s_def using x4 rg by (intro nb; linarith)+
  have x4up: "x4 \<le> (1 + y) * (U * U + h)"
  proof -
    have "x3 * U \<le> y * U * U" using x3y(2) U1 L1 h1 by (intro mult_right_mono) linarith+
    moreover have "0 \<le> y * h" using ypos U1 L1 h1 by simp
    moreover have "y * U * U = y * (U * U)" by simp
    moreover have "1 \<le> U * U"
    proof -
      have "1 * 1 \<le> U * U" using U1 by (intro mult_mono) linarith+
      then show ?thesis by simp
    qed
    moreover have "(1 + y) * (U * U + h) = U * U + h + y * (U * U) + y * h"
      by (simp add: algebra_simps)
    ultimately show ?thesis using b(4) unfolding x4_def by linarith
  qed
  have x4dn: "(1 + y) * (L * L - h) \<le> x4"
  proof -
    have "y * L * L \<le> x3 * L" using x3y(1) U1 L1 h1 by (intro mult_right_mono) linarith+
    moreover have "0 \<le> y * h" using ypos U1 L1 h1 by simp
    moreover have "y * L * L = y * (L * L)" by simp
    moreover have "L * L \<le> 1"
    proof -
      have "L * L \<le> 1 * 1" using L1 by (intro mult_mono) linarith+
      then show ?thesis by simp
    qed
    moreover have "(1 + y) * (L * L - h) = L * L - h + y * (L * L) - y * h"
      by (simp add: algebra_simps)
    ultimately show ?thesis using b(3) unfolding x4_def by linarith
  qed
  have spos: "1/2 \<le> s"
  proof -
    have "1 * (1/2) \<le> x4 * L" using x4 U1 L1 h1 by (intro mult_mono) linarith+
    then show ?thesis using s(2) by linarith
  qed
  have shi: "s \<le> 1000000"
  proof -
    have "x4 * U \<le> 900001 * (11/10)" using x4 U1 L1 h1 by (intro mult_mono) linarith+
    then show ?thesis using s(3) by linarith
  qed
  \<comment> \<open>the product of the two\<close>
  define x5 where "x5 = a * s"
  define P where "P = rnd x5"
  have alo: "2 * lo \<le> a"
  proof -
    have "(4 * lo) * (1/2) \<le> x1 * L" using x1lo U1 L1 h1 rg(1) by (intro mult_mono) linarith+
    then show ?thesis using a(2) by linarith
  qed
  have ahi: "a * 8388608 \<le> hi"
  proof -
    have "x1 * U \<le> x1 * 2" using x1pos U1 L1 h1 by (intro mult_left_mono) linarith+
    then show ?thesis using a(3) x1hi by linarith
  qed
  have apos: "0 \<le> a" using alo rg(1) by linarith
  have x5lo: "lo \<le> x5"
  proof -
    have "(2 * lo) * (1/2) \<le> a * s" using alo spos rg(1) by (intro mult_mono) linarith+
    then show ?thesis by (simp add: x5_def)
  qed
  have x5hi: "x5 \<le> hi"
  proof -
    have "a * s \<le> a * 1000000" using apos shi by (intro mult_left_mono)
    then show ?thesis using ahi apos by (simp add: x5_def)
  qed
  have P: "fl64 x5 = Fin P" "x5 * L \<le> P" "P \<le> x5 * U"
    unfolding P_def using x5lo x5hi by (intro nb; linarith)+
  \<comment> \<open>the value of the function\<close>
  have val: "calculateParallelResistance64 (Fin R) (Fin n) (Fin c) = Fin P"
  proof -
    have "n \<noteq> 1" "\<not> n \<le> 0" "n \<noteq> 0" using n by linarith+
    then show ?thesis
      unfolding calculateParallelResistance64_def
      by (simp add: js_seq_def d_div_Fin d_sub_Fin d_mul_Fin d_add_Fin
          a(1)[unfolded x1_def] m(1)[unfolded x2_def] b(1)[unfolded x3_def]
          s(1)[unfolded x4_def] P(1)[unfolded x5_def])
  qed
  \<comment> \<open>the enclosure\<close>
  define F where "F = x1 * (1 + y)"
  have Fpos: "0 \<le> F" using x1pos ypos by (simp add: F_def)
  have up: "P \<le> F * (1 + 1 / 2 ^ 50)"
  proof -
    have "a * s \<le> (x1 * U) * (x4 * U)"
      using a(3) s(3) apos spos by (intro mult_mono) linarith+
    also have "\<dots> \<le> (x1 * U) * (((1 + y) * (U * U + h)) * U)"
      using x4up x1pos U1 L1 h1 by (intro mult_left_mono mult_right_mono mult_nonneg_nonneg) linarith+
    finally have "x5 \<le> (x1 * U) * (((1 + y) * (U * U + h)) * U)" by (simp add: x5_def)
    then have "x5 * U \<le> (x1 * U) * (((1 + y) * (U * U + h)) * U) * U"
      using U1 L1 h1 by (intro mult_right_mono) linarith+
    also have "\<dots> = F * ((U * U + h) * (U * (U * U)))" by (simp add: F_def)
    also have "\<dots> \<le> F * (1 + 1 / 2 ^ 50)" using Fpos rf(7) by (intro mult_left_mono)
    finally show ?thesis using P(3) by linarith
  qed
  have dn: "F * (1 - 1 / 2 ^ 50) \<le> P"
  proof -
    have k: "0 \<le> L * L - h"
    proof -
      have "(1/2) * (1/2) \<le> L * L" using U1 L1 h1 by (intro mult_mono) linarith+
      then show ?thesis using U1 L1 h1 by linarith
    qed
    have "(x1 * L) * (((1 + y) * (L * L - h)) * L) \<le> (x1 * L) * (x4 * L)"
      using x4dn x1pos U1 L1 h1 by (intro mult_left_mono mult_right_mono mult_nonneg_nonneg) linarith+
    also have "\<dots> \<le> a * s"
      using a(2) s(2) x1pos x4 apos U1 L1 h1 by (intro mult_mono mult_nonneg_nonneg) linarith+
    finally have "(x1 * L) * (((1 + y) * (L * L - h)) * L) \<le> x5" by (simp add: x5_def)
    then have "(x1 * L) * (((1 + y) * (L * L - h)) * L) * L \<le> x5 * L"
      using U1 L1 h1 by (intro mult_right_mono) linarith+
    moreover have "(x1 * L) * (((1 + y) * (L * L - h)) * L) * L
        = F * ((L * L - h) * (L * (L * L)))" by (simp add: F_def)
    moreover have "F * (1 - 1 / 2 ^ 50) \<le> F * ((L * L - h) * (L * (L * L)))"
      using Fpos rf(8) by (intro mult_left_mono)
    ultimately show ?thesis using P(2) by linarith
  qed
  have "F = R / n * (1 + c * (n - 1))" by (simp add: F_def x1_def y_def x2_def)
  then show ?thesis using val up dn by blast
qed

lemma parallel_gap:
  fixes R n c :: real
  assumes "0 \<le> R" "1 \<le> n" "n \<le> 1000000" "0 \<le> c" "c \<le> 7/10"
  shows "R / (n + 1) * (1 + c * ((n + 1) - 1)) * (1 + 1 / 2 ^ 50)
       \<le> R / n * (1 + c * (n - 1)) * (1 - 1 / 2 ^ 50)"
proof -
  define X where "X = n * (1 + c * n)"
  define d :: real where "d = 1 / 2 ^ 50"
  have d: "0 \<le> d" "d * 1000000000000000 \<le> 1" by (simp_all add: d_def)
  have X0: "0 \<le> X" using assms by (simp add: X_def)
  have "c * n \<le> (7/10) * 1000000" using assms by (intro mult_mono) linarith+
  then have "1 + c * n \<le> 700001" by linarith
  moreover have "0 \<le> 1 + c * n" using assms by simp
  ultimately have "n * (1 + c * n) \<le> 1000000 * 700001" 
    using assms by (intro mult_mono) linarith+
  then have X1: "X \<le> 700001000000" by (simp add: X_def)
  have dX: "d * X \<le> 1/1000"
  proof -
    have "d * X \<le> d * 700001000000" using X1 d by (intro mult_left_mono)
    also have "\<dots> \<le> 1/1000" using d by linarith
    finally show ?thesis .
  qed
  have dc: "0 \<le> d * c" "d * c \<le> 1" 
  proof -
    show "0 \<le> d * c" using d assms by simp
    have "d * c \<le> 1 * 1" using d assms by (intro mult_mono) linarith+
    then show "d * c \<le> 1" by simp
  qed
  have key: "X * (1 + d) \<le> (X + 1 - c) * (1 - d)"
  proof -
    have e: "X * (1 + d) = X + d * X" "(X + 1 - c) * (1 - d) = X + 1 - c - d * X - d + d * c"
      by (simp_all add: algebra_simps)
    have "d \<le> 1/1000" using d by linarith
    then show ?thesis unfolding e using dX dc assms(4,5) by linarith
  qed
  have np: "0 < n" "0 < n + 1" using assms by linarith+
  have l: "R / (n + 1) * (1 + c * ((n + 1) - 1)) = R / (n * (n + 1)) * X"
  proof -
    have "R / (n * (n + 1)) * (n * (1 + c * n)) = (R / (n * (n + 1)) * n) * (1 + c * n)"
      by (simp only: mult.assoc)
    moreover have "R / (n * (n + 1)) * n = R / (n + 1)" using np by simp
    ultimately show ?thesis unfolding X_def by simp
  qed
  have r: "R / n * (1 + c * (n - 1)) = R / (n * (n + 1)) * (X + 1 - c)"
  proof -
    have e: "X + 1 - c = (n + 1) * (1 + c * (n - 1))" by (simp add: X_def algebra_simps)
    have "R / (n * (n + 1)) * ((n + 1) * (1 + c * (n - 1)))
        = (R / (n * (n + 1)) * (n + 1)) * (1 + c * (n - 1))"
      by (simp only: mult.assoc)
    moreover have "R / (n * (n + 1)) * (n + 1) = R / n" using np by simp
    ultimately show ?thesis unfolding e by simp
  qed
  have "0 \<le> R / (n * (n + 1))" using assms np by simp
  then have "R / (n * (n + 1)) * (X * (1 + d)) \<le> R / (n * (n + 1)) * ((X + 1 - c) * (1 - d))"
    using key by (intro mult_left_mono)
  then show ?thesis unfolding l r d_def by (simp only: mult.assoc)
qed

lemma d_mul_finite_right: "d_mul v S = Fin P \<Longrightarrow> js_isFinite S"
  by (cases v; cases S) (simp_all add: d_mul_def inf_of_sign_def split: if_splits)

lemma parallel64_zero:
  assumes "1 \<le> n" "n \<le> 1000001" "0 \<le> c" "c \<le> 7/10"
  shows "calculateParallelResistance64 (Fin 0) (Fin n) (Fin c) = Fin 0"
proof (cases "n = 1")
  case True
  then show ?thesis by (simp add: calculateParallelResistance64_def js_seq_def)
next
  case False
  then have n: "2 \<le> n \<or> (1 < n \<and> n < 2)" using assms by linarith
  have nz: "n \<noteq> 0" "\<not> n \<le> 0" using assms by linarith+
  define S where "S = d_add (Fin 1) (d_mul (Fin c) (d_sub (Fin n) (Fin 1)))"
  have "js_isFinite S"
  proof -
    have b: "0 \<le> c * rnd (n - 1)" using assms by (intro mult_nonneg_nonneg rnd_nonneg) linarith+
    have m: "rnd (n - 1) \<le> 2 powi 20"
      using assms by (intro rnd_le_pow2) simp_all
    have "c * rnd (n - 1) \<le> 1 * 2 powi 20"
      using assms m by (intro mult_mono rnd_nonneg) linarith+
    then have x3: "c * rnd (n - 1) \<le> 2 powi 20" by simp
    have "\<bar>n - 1\<bar> \<le> 2 powi 1023" using assms by simp
    then have f1: "fl64 (n - 1) = Fin (rnd (n - 1))" by (rule fl64_finite)
    have "\<bar>c * rnd (n - 1)\<bar> \<le> 2 powi 1023" using b x3 by simp
    then have f2: "fl64 (c * rnd (n - 1)) = Fin (rnd (c * rnd (n - 1)))" by (rule fl64_finite)
    have r3: "0 \<le> rnd (c * rnd (n - 1))" using b by (rule rnd_nonneg)
    have "rnd (c * rnd (n - 1)) \<le> 2 powi 20" using x3 by (intro rnd_le_pow2) simp_all
    then have "\<bar>1 + rnd (c * rnd (n - 1))\<bar> \<le> 2 powi 1023" using r3 by simp
    then have f3: "fl64 (1 + rnd (c * rnd (n - 1))) = Fin (rnd (1 + rnd (c * rnd (n - 1))))"
      by (rule fl64_finite)
    show ?thesis
      unfolding S_def by (simp add: d_sub_Fin d_mul_Fin d_add_Fin f1 f2 f3)
  qed
  then obtain s where s: "S = Fin s" by (cases S) simp_all
  show ?thesis
    unfolding calculateParallelResistance64_def S_def[symmetric] s
    using nz False by (simp add: js_seq_def d_div_Fin d_mul_Fin)
qed

text \<open>
  C4, amended. On doubles, for a single-rod resistance that is 0 or lies between
  \<open>2 powi (- 1000)\<close> and \<open>2 powi 1000\<close>, a coupling factor between 0 and 0.7 and a whole number of
  rods \<open>n\<close> from 1 to 1000000, the parallel resistance of \<open>n + 1\<close> rods is at most that of
  \<open>n\<close> rods.
\<close>

theorem parallel64_antimono:
  fixes k :: int
  assumes "R = 0 \<or> (2 powi (- 1000) \<le> R \<and> R \<le> 2 powi 1000)"
    and "0 \<le> c" "c \<le> 7/10" "1 \<le> k" "k \<le> 1000000"
  shows "js_le (calculateParallelResistance64 (Fin R) (Fin (of_int (k + 1))) (Fin c))
               (calculateParallelResistance64 (Fin R) (Fin (of_int k)) (Fin c))"
proof (cases "R = 0")
  case True
  have "(1::real) \<le> of_int k" "(of_int k :: real) \<le> 1000001"
    "(1::real) \<le> of_int (k + 1)" "(of_int (k + 1) :: real) \<le> 1000001"
    using assms by simp_all
  then show ?thesis
    unfolding True using assms(2,3) by (simp only: parallel64_zero js_le.simps order_refl)
next
  case False
  then have R: "2 powi (- 1000) \<le> R" "R \<le> 2 powi 1000" using assms(1) by simp_all
  have "0 < (2::real) powi (- 1000)" by simp
  then have Rpos: "0 \<le> R" using R(1) by linarith
  define n :: real where "n = of_int k"
  have n: "1 \<le> n" "n \<le> 1000000" using assms by (simp_all add: n_def)
  have n1: "of_int (k + 1) = n + 1" by (simp add: n_def)
  obtain P' where P': "calculateParallelResistance64 (Fin R) (Fin (n + 1)) (Fin c) = Fin P'"
      "P' \<le> R / (n + 1) * (1 + c * ((n + 1) - 1)) * (1 + 1 / 2 ^ 50)"
    using parallel64_enclosure[OF R, of "n + 1" c] n assms(2,3) by auto
  have gap: "R / (n + 1) * (1 + c * ((n + 1) - 1)) * (1 + 1 / 2 ^ 50)
       \<le> R / n * (1 + c * (n - 1)) * (1 - 1 / 2 ^ 50)"
    using Rpos n assms(2,3) by (rule parallel_gap)
  show ?thesis
  proof (cases "n = 1")
    case True
    have "R / n * (1 + c * (n - 1)) * (1 - 1 / 2 ^ 50) \<le> R"
      using Rpos True by (simp add: mult_left_le)
    then have "P' \<le> R" using P'(2) gap by linarith
    moreover have "calculateParallelResistance64 (Fin R) (Fin n) (Fin c) = Fin R"
      using True by (simp add: calculateParallelResistance64_def js_seq_def)
    ultimately show ?thesis unfolding n1 n_def[symmetric] P'(1) by simp
  next
    case False
    then have "2 \<le> n" using n(1) assms(4) by (simp add: n_def)
    then obtain P where P: "calculateParallelResistance64 (Fin R) (Fin n) (Fin c) = Fin P"
      "R / n * (1 + c * (n - 1)) * (1 - 1 / 2 ^ 50) \<le> P"
      using parallel64_enclosure[OF R, of n c] n assms(2,3) by auto
    have "P' \<le> P" using P'(2) gap P(2) by linarith
    then show ?thesis unfolding n1 n_def[symmetric] P'(1) P(1) by simp
  qed
qed

theorem parallel64_antimono_witness:
  "js_le (calculateParallelResistance64 (Fin 10) (Fin 5) (Fin (1/2)))
         (calculateParallelResistance64 (Fin 10) (Fin 4) (Fin (1/2)))"
  using parallel64_antimono[of 10 "1/2" 4]
  by (simp add: power_int_minus_divide)

text \<open>The value of the function from the five roundings it performs.\<close>

lemma parallel64_value:
  assumes "1 < n" "fl64 (R / n) = Fin a" "fl64 (n - 1) = Fin m" "fl64 (c * m) = Fin b"
    and "fl64 (1 + b) = Fin s" "fl64 (a * s) = Fin P"
  shows "calculateParallelResistance64 (Fin R) (Fin n) (Fin c) = Fin P"
proof -
  have "n \<noteq> 0" "\<not> n \<le> 0" "n \<noteq> 1" using assms(1) by linarith+
  then show ?thesis
    unfolding calculateParallelResistance64_def
    by (simp add: js_seq_def d_div_Fin d_sub_Fin d_mul_Fin d_add_Fin assms(2-6))
qed

lemma parallel64_at_134217689:
  "calculateParallelResistance64 (Fin 3) (Fin 134217689) (Fin (1/2))
     = Fin (of_int 6755399491387406 * 2 powi (0 - 52))"
proof (rule parallel64_value)
  show "(1::real) < 134217689" by simp
  show "fl64 (3 / 134217689) = Fin (of_int 6755401403990586 * 2 powi (- 26 - 52))"
    by (rule fl64_cert) (simp_all add: power_int_minus_divide)
  show "fl64 (134217689 - 1) = Fin (of_int 9007196570386432 * 2 powi (26 - 52))"
    by (rule fl64_cert) (simp_all add: power_int_minus_divide)
  show "fl64 (1 / 2 * (of_int 9007196570386432 * 2 powi (26 - 52)))
      = Fin (of_int 9007196570386432 * 2 powi (25 - 52))"
    by (rule fl64_cert) (simp_all add: power_int_minus_divide)
  show "fl64 (1 + of_int 9007196570386432 * 2 powi (25 - 52))
      = Fin (of_int 9007196704604160 * 2 powi (25 - 52))"
    by (rule fl64_cert) (simp_all add: power_int_minus_divide)
  show "fl64 (of_int 6755401403990586 * 2 powi (- 26 - 52)
            * (of_int 9007196704604160 * 2 powi (25 - 52)))
      = Fin (of_int 6755399491387406 * 2 powi (0 - 52))"
    by (rule fl64_cert) (simp_all add: power_int_minus_divide)
qed

lemma parallel64_at_134217690:
  "calculateParallelResistance64 (Fin 3) (Fin 134217690) (Fin (1/2))
     = Fin (of_int 6755399491387407 * 2 powi (0 - 52))"
proof (rule parallel64_value)
  show "(1::real) < 134217690" by simp
  show "fl64 (3 / 134217690) = Fin (of_int 6755401353658910 * 2 powi (- 26 - 52))"
    by (rule fl64_cert) (simp_all add: power_int_minus_divide)
  show "fl64 (134217690 - 1) = Fin (of_int 9007196637495296 * 2 powi (26 - 52))"
    by (rule fl64_cert) (simp_all add: power_int_minus_divide)
  show "fl64 (1 / 2 * (of_int 9007196637495296 * 2 powi (26 - 52)))
      = Fin (of_int 9007196637495296 * 2 powi (25 - 52))"
    by (rule fl64_cert) (simp_all add: power_int_minus_divide)
  show "fl64 (1 + of_int 9007196637495296 * 2 powi (25 - 52))
      = Fin (of_int 9007196771713024 * 2 powi (25 - 52))"
    by (rule fl64_cert) (simp_all add: power_int_minus_divide)
  show "fl64 (of_int 6755401353658910 * 2 powi (- 26 - 52)
            * (of_int 9007196771713024 * 2 powi (25 - 52)))
      = Fin (of_int 6755399491387407 * 2 powi (0 - 52))"
    by (rule fl64_cert) (simp_all add: power_int_minus_divide)
qed

text \<open>
  C4, as the claim states it, fails on doubles for a large rod count. With a single-rod
  resistance of 3 and a coupling factor of 0.5, the function returns
  \<open>6755399491387406 / 2^52\<close> for 134217689 rods and \<open>6755399491387407 / 2^52\<close> for 134217690
  rods: one more rod, and a resistance one unit in the last place higher.
\<close>

theorem parallel_antimono_counterexample:
  "\<not> js_le (calculateParallelResistance64 (Fin 3) (Fin (of_int (134217689 + 1))) (Fin (1/2)))
            (calculateParallelResistance64 (Fin 3) (Fin (of_int 134217689)) (Fin (1/2)))"
  using parallel64_at_134217689 parallel64_at_134217690
  by (simp add: power_int_minus_divide)

subsection \<open>No rods\<close>

text \<open>Rounding keeps a number between two powers of two that enclose it.\<close>

lemma pow2_exp_le:
  assumes "(2::real) powi i \<le> 2 powi j"
  shows "i \<le> j"
proof (rule ccontr)
  assume "\<not> i \<le> j"
  then have "(2::real) powi j < 2 powi i" by (intro power_int_strict_increasing) simp_all
  then show False using assms by linarith
qed

lemma js_between_Fin:
  assumes "js_le (Fin lo) x" "js_le x (Fin hi)"
  shows "\<exists>y. x = Fin y \<and> lo \<le> y \<and> y \<le> hi"
  using assms by (cases x) simp_all

lemma fl64_pos_interval:
  assumes "2 powi i \<le> x" "x \<le> 2 powi j" "- 1074 \<le> i" "j \<le> 1023"
  shows "\<exists>y. fl64 x = Fin y \<and> 2 powi i \<le> y \<and> y \<le> 2 powi j"
proof -
  have "(2::real) powi i \<le> 2 powi j" using assms(1,2) by linarith
  then have ij: "i \<le> j" by (rule pow2_exp_le)
  have "(2::real) powi j \<le> 2 powi 1023" using assms(4) by (intro power_int_increasing) simp_all
  moreover have "0 < (2::real) powi i" by simp
  ultimately have "\<bar>x\<bar> \<le> 2 powi 1023" using assms(1,2) by linarith
  then have "fl64 x = Fin (rnd x)" by (rule fl64_finite)
  moreover have "2 powi i \<le> rnd x" using assms(1,3) by (rule rnd_ge_pow2)
  moreover have "rnd x \<le> 2 powi j" using assms(2) ij assms(3) by (intro rnd_le_pow2) simp_all
  ultimately show ?thesis by blast
qed

lemma fl64_nonneg_interval:
  assumes "0 \<le> x" "x \<le> 2 powi j" "- 1074 \<le> j" "j \<le> 1023"
  shows "\<exists>y. fl64 x = Fin y \<and> 0 \<le> y \<and> y \<le> 2 powi j"
proof -
  have "(2::real) powi j \<le> 2 powi 1023" using assms(4) by (intro power_int_increasing) simp_all
  then have "\<bar>x\<bar> \<le> 2 powi 1023" using assms(1,2) by linarith
  then have "fl64 x = Fin (rnd x)" by (rule fl64_finite)
  moreover have "0 \<le> rnd x" using assms(1) by (rule rnd_nonneg)
  moreover have "rnd x \<le> 2 powi j" using assms(2,3) by (rule rnd_le_pow2)
  ultimately show ?thesis by blast
qed

lemma fl64_abs_interval:
  assumes "\<bar>x\<bar> \<le> 2 powi j" "- 1074 \<le> j" "j \<le> 1023"
  shows "\<exists>y. fl64 x = Fin y \<and> \<bar>y\<bar> \<le> 2 powi j"
proof -
  have "(2::real) powi j \<le> 2 powi 1023" using assms(3) by (intro power_int_increasing) simp_all
  then have "\<bar>x\<bar> \<le> 2 powi 1023" using assms(1) by linarith
  then have "fl64 x = Fin (rnd x)" by (rule fl64_finite)
  moreover have "\<bar>rnd x\<bar> \<le> 2 powi j" using assms(1,2) by (rule rnd_abs_le_pow2)
  ultimately show ?thesis by blast
qed

lemma fl64_neg_interval:
  assumes "- (2 powi j) \<le> x" "x \<le> - (2 powi i)" "- 1074 \<le> i" "j \<le> 1023"
  shows "\<exists>y. fl64 x = Fin y \<and> - (2 powi j) \<le> y \<and> y \<le> - (2 powi i)"
proof -
  have "(2::real) powi i \<le> 2 powi j" using assms(1,2) by linarith
  then have ij: "i \<le> j" by (rule pow2_exp_le)
  have "(2::real) powi j \<le> 2 powi 1023" using assms(4) by (intro power_int_increasing) simp_all
  moreover have "0 < (2::real) powi i" by simp
  ultimately have "\<bar>x\<bar> \<le> 2 powi 1023" using assms(1,2) by linarith
  then have "fl64 x = Fin (rnd x)" by (rule fl64_finite)
  moreover have "2 powi i \<le> rnd (- x)" using assms(2,3) by (intro rnd_ge_pow2) simp_all
  moreover have "rnd (- x) \<le> 2 powi j" using assms(1) ij assms(3) by (intro rnd_le_pow2) simp_all
  ultimately show ?thesis by (simp add: rnd_minus)
qed

lemma d_lit_3_10: "\<exists>y. d_lit (3/10) = Fin y \<and> 1/4 \<le> y \<and> y \<le> 1/2"
  using fl64_pos_interval[of "-2" "3/10" "-1"] by (simp add: d_lit_def power_int_minus_divide)

lemma d_lit_12_10: "\<exists>y. d_lit (12/10) = Fin y \<and> 1 \<le> y \<and> y \<le> 2"
  using fl64_pos_interval[of 0 "12/10" 1] by (simp add: d_lit_def)

lemma d_lit_4_10: "\<exists>y. d_lit (4/10) = Fin y \<and> 1/4 \<le> y \<and> y \<le> 1/2"
  using fl64_pos_interval[of "-2" "4/10" "-1"] by (simp add: d_lit_def power_int_minus_divide)

lemma d_lit_5_1000: "\<exists>y. d_lit (5/1000) = Fin y \<and> 1/256 \<le> y \<and> y \<le> 1/128"
  using fl64_pos_interval[of "-8" "5/1000" "-7"] by (simp add: d_lit_def power_int_minus_divide)

lemma d_PI_bounds: "\<exists>y. d_PI = Fin y \<and> 2 \<le> y \<and> y \<le> 4"
  using fl64_pos_interval[of 1 pi 2] pi_ge_two pi_less_4 by (simp add: d_PI_def)

lemma weatherFactor64_bounds: "\<exists>y. weatherFactor64 w = Fin y \<and> 1/4 \<le> y \<and> y \<le> 2"
proof -
  obtain a where a: "d_lit (3/10) = Fin a" "1/4 \<le> a" "a \<le> 1/2" using d_lit_3_10 by blast
  obtain b where b: "d_lit (12/10) = Fin b" "1 \<le> b" "b \<le> 2" using d_lit_12_10 by blast
  have "js_le (Fin (1/4)) (weatherFactor64 w) \<and> js_le (weatherFactor64 w) (Fin 2)"
    unfolding weatherFactor64_def using a b by simp
  then show ?thesis using js_between_Fin by blast
qed

lemma baseResistivityOf_own:
  assumes "soil \<notin> set Object_prototype_keys"
  shows "\<exists>b. baseResistivityOf soil = Fin b \<and> 10 \<le> b \<and> b \<le> 1500"
  using assms by (auto simp: baseResistivityOf_def SOIL_RESISTIVITY_def js_truthy_def)

lemma adjustResistivityForWeather64_bounds:
  assumes "10 \<le> b" "b \<le> 1500" "0 \<le> h" "h \<le> 1"
  shows "\<exists>r. adjustResistivityForWeather64 (Fin b) w (Fin h) = Fin r \<and> 0 \<le> r \<and> r \<le> 2 powi 12"
proof -
  obtain a where a: "d_lit (3/10) = Fin a" "1/4 \<le> a" "a \<le> 1/2" using d_lit_3_10 by blast
  have "0 \<le> h * a" "h * a \<le> 1 * 1"
    using assms a by (simp, intro mult_mono) linarith+
  then obtain t1 where t1: "fl64 (h * a) = Fin t1" "0 \<le> t1" "t1 \<le> 1"
    using fl64_nonneg_interval[of "h * a" 0] by auto
  have "0 \<le> 1 - t1" "1 - t1 \<le> 1" using t1 by linarith+
  then obtain t2 where t2: "fl64 (1 - t1) = Fin t2" "0 \<le> t2" "t2 \<le> 1"
    using fl64_nonneg_interval[of "1 - t1" 0] by auto
  obtain wf where wf: "weatherFactor64 w = Fin wf" "1/4 \<le> wf" "wf \<le> 2"
    using weatherFactor64_bounds by blast
  have "0 \<le> wf * t2" "wf * t2 \<le> 2 * 1"
    using wf t2 by (simp, intro mult_mono) linarith+
  then obtain f where f: "fl64 (wf * t2) = Fin f" "0 \<le> f" "f \<le> 2"
    using fl64_nonneg_interval[of "wf * t2" 1] by auto
  have "0 \<le> b * f" "b * f \<le> 1500 * 2"
    using assms f by (simp, intro mult_mono) linarith+
  then have "0 \<le> b * f" "b * f \<le> 2 powi 12" by simp_all
  then obtain r where r: "fl64 (b * f) = Fin r" "0 \<le> r" "r \<le> 2 powi 12"
    using fl64_nonneg_interval[of "b * f" 12] by auto
  have "adjustResistivityForWeather64 (Fin b) w (Fin h) = Fin r"
    unfolding adjustResistivityForWeather64_def Let_def wf(1) a(1)
    by (simp add: d_mul_Fin d_sub_Fin t1(1) t2(1) f(1) r(1))
  then show ?thesis using r by blast
qed

lemma pow2_le_exp: "(2::real) ^ n \<le> exp (real n)"
proof -
  have "(2::real) \<le> exp 1" using exp_ge_add_one_self[of "1::real"] by simp
  then have "(2::real) ^ n \<le> exp 1 ^ n" by (intro power_mono) simp_all
  also have "\<dots> = exp (real n * 1)" by (rule exp_of_nat_mult[symmetric])
  finally show ?thesis by simp
qed

lemma ln_between_pow2:
  assumes "1 / 2 ^ n \<le> x" "x \<le> 2 ^ n"
  shows "\<bar>ln x\<bar> \<le> real n"
proof -
  have "0 < (1::real) / 2 ^ n" by simp
  then have p: "0 < x" using assms(1) by linarith
  have "x \<le> exp (real n)" using assms(2) pow2_le_exp[of n] by linarith
  then have "ln x \<le> ln (exp (real n))" using p by (intro ln_mono) simp_all
  then have u: "ln x \<le> real n" by simp
  have "exp (- real n) = 1 / exp (real n)" by (simp add: exp_minus inverse_eq_divide)
  also have "\<dots> \<le> 1 / 2 ^ n" using pow2_le_exp[of n] by (intro divide_left_mono) simp_all
  finally have "exp (- real n) \<le> x" using assms(1) by linarith
  then have "- real n \<le> ln x" using p by (simp add: ln_ge_iff)
  then show ?thesis using u by linarith
qed

lemma singleRod64_finite:
  assumes "0 \<le> r" "r \<le> 2 powi 12"
    and "2 powi (- 500) \<le> l" "l \<le> 2 powi 500"
    and "2 powi (- 500) \<le> d" "d \<le> 2 powi 500"
  shows "js_isFinite (calculateSingleRodResistance64 (Fin r) (Fin l) (Fin d))"
proof -
  define lo :: real where "lo = 2 powi (- 500)"
  define hi :: real where "hi = 2 powi 500"
  have lohi: "0 < lo" "0 < hi" by (simp_all add: lo_def hi_def)
  have l: "lo \<le> l" "l \<le> hi" and d: "lo \<le> d" "d \<le> hi" using assms by (simp_all add: lo_def hi_def)
  have lpos: "0 < l" and dpos: "0 < d" using l d lohi by linarith+
  obtain p where p: "d_PI = Fin p" "2 \<le> p" "p \<le> 4" using d_PI_bounds by blast
  have "2 powi 2 \<le> 2 * p" "2 * p \<le> 2 powi 3" using p by simp_all
  then obtain q where q: "fl64 (2 * p) = Fin q" "2 powi 2 \<le> q" "q \<le> 2 powi 3"
    using fl64_pos_interval[of 2 "2 * p" 3] by auto
  then have q': "4 \<le> q" "q \<le> 8" by simp_all
  \<comment> \<open>the denominator\<close>
  have "4 * lo \<le> q * l" "q * l \<le> 8 * hi"
    using q' l lohi by (intro mult_mono; linarith)+
  moreover have "4 * lo = 2 powi (- 498)" "8 * hi = 2 powi 503"
    by (simp_all add: lo_def hi_def power_int_minus_divide)
  ultimately have "2 powi (- 498) \<le> q * l" "q * l \<le> 2 powi 503" by simp_all
  then obtain den where den: "fl64 (q * l) = Fin den" "2 powi (- 498) \<le> den" "den \<le> 2 powi 503"
    using fl64_pos_interval[of "- 498" "q * l" 503] by auto
  have "0 < (2::real) powi (- 498)" by simp
  then have denpos: "0 < den" using den(2) by linarith
  \<comment> \<open>the quotient\<close>
  have "r / den \<le> 2 powi 12 / 2 powi (- 498)"
    using assms(1,2) den(2) by (intro frac_le) simp_all
  moreover have "(2::real) powi 12 / 2 powi (- 498) = 2 powi 510"
    by (simp add: power_int_minus_divide)
  moreover have "0 \<le> r / den" using assms(1) denpos by simp
  ultimately obtain A where A: "fl64 (r / den) = Fin A" "0 \<le> A" "A \<le> 2 powi 510"
    using fl64_nonneg_interval[of "r / den" 510] by auto
  \<comment> \<open>the argument of the logarithm\<close>
  have "4 * lo \<le> 4 * l" "4 * l \<le> 4 * hi" using l by simp_all
  moreover have "4 * lo = 2 powi (- 498)" "4 * hi = 2 powi 502"
    by (simp_all add: lo_def hi_def power_int_minus_divide)
  ultimately have "2 powi (- 498) \<le> 4 * l" "4 * l \<le> 2 powi 502" by simp_all
  then obtain e where e: "fl64 (4 * l) = Fin e" "2 powi (- 498) \<le> e" "e \<le> 2 powi 502"
    using fl64_pos_interval[of "- 498" "4 * l" 502] by auto
  have "0 < (2::real) powi (- 498)" by simp
  then have epos: "0 \<le> e" using e(2) by linarith
  have "2 powi (- 498) / hi \<le> e / d" "e / d \<le> 2 powi 502 / lo"
    using e d lohi dpos epos by (intro frac_le; simp)+
  moreover have "2 powi (- 498) / hi = 2 powi (- 998)" "2 powi 502 / lo = 2 powi 1002"
    by (simp_all add: lo_def hi_def power_int_minus_divide)
  ultimately have "2 powi (- 998) \<le> e / d" "e / d \<le> 2 powi 1002" by simp_all
  then obtain g where g: "fl64 (e / d) = Fin g" "2 powi (- 998) \<le> g" "g \<le> 2 powi 1002"
    using fl64_pos_interval[of "- 998" "e / d" 1002] by auto
  have "0 < (2::real) powi (- 998)" by simp
  then have gpos: "0 < g" using g(2) by linarith
  \<comment> \<open>the logarithm\<close>
  have "1 / 2 ^ 1002 \<le> g" "g \<le> 2 ^ 1002"
  proof -
    have "(1::real) / 2 ^ 1002 \<le> 2 powi (- 998)" by (simp add: power_int_minus_divide)
    then show "1 / 2 ^ 1002 \<le> g" using g(2) by linarith
    show "g \<le> 2 ^ 1002" using g(3) by simp
  qed
  then have "\<bar>ln g\<bar> \<le> real 1002" by (rule ln_between_pow2)
  then have "\<bar>ln g\<bar> \<le> 2 powi 10" by simp
  then obtain lg where lg: "fl64 (ln g) = Fin lg" "\<bar>lg\<bar> \<le> 2 powi 10"
    using fl64_abs_interval[of "ln g" 10] by auto
  \<comment> \<open>the product\<close>
  have "\<bar>A * lg\<bar> \<le> 2 powi 510 * 2 powi 10"
    unfolding abs_mult using A lg by (intro mult_mono) simp_all
  moreover have "(2::real) powi 510 * 2 powi 10 = 2 powi 520" by simp
  ultimately have "\<bar>A * lg\<bar> \<le> 2 powi 520" by simp
  then obtain R where R: "fl64 (A * lg) = Fin R"
    using fl64_abs_interval[of "A * lg" 520] by auto
  have dn: "den \<noteq> 0" "d \<noteq> 0" using denpos dpos by simp_all
  have "calculateSingleRodResistance64 (Fin r) (Fin l) (Fin d) = Fin R"
    unfolding calculateSingleRodResistance64_def p(1)
    using lpos dpos dn gpos
    by (simp add: d_mul_Fin q(1) den(1) d_div_Fin A(1) e(1) g(1) d_log_def lg(1) R)
  then show ?thesis by simp
qed

lemma d_round_not_NaN: "x \<noteq> NaN \<Longrightarrow> d_round x \<noteq> NaN"
  by (cases x) simp_all

lemma d_sub_from_one:
  assumes "M \<noteq> NaN" "js_le M (Fin (1/2))"
  shows "js_le (Fin (1/2)) (d_sub (Fin 1) M)"
proof (cases M)
  case (Fin m)
  then have "1/2 \<le> 1 - m" using assms(2) by simp
  then have "js_le (fl64 (1/2)) (fl64 (1 - m))" by (rule fl64_mono)
  then show ?thesis by (simp add: Fin d_sub_Fin)
next
  case NInf
  then show ?thesis by (simp add: d_sub_def js_sub_def)
qed (use assms in simp_all)

lemma radial64_positive:
  "js_le (Fin (1/2)) (calculateRadialContribution64 b (Fin rc) (Fin rl))"
proof (cases "rc = 0 \<or> rl = 0")
  case True
  then show ?thesis by (auto simp: calculateRadialContribution64_def js_seq_def)
next
  case False
  obtain r5 where r5: "d_lit (5/1000) = Fin r5" "1/256 \<le> r5" using d_lit_5_1000 by blast
  obtain r4 where r4: "d_lit (4/10) = Fin r4" "r4 \<le> 1/2" using d_lit_4_10 by blast
  define v where "v = d_mul (d_mul (Fin rc) (Fin rl)) (Fin r5)"
  have v: "v \<noteq> NaN"
  proof (cases "fl64 (rc * rl)")
    case (Fin a)
    then show ?thesis by (simp add: v_def d_mul_Fin)
  next
    case PInf
    then show ?thesis using r5(2) by (simp add: v_def d_mul_Fin d_mul_def inf_of_sign_def)
  next
    case NInf
    then show ?thesis using r5(2) by (simp add: v_def d_mul_Fin d_mul_def inf_of_sign_def)
  next
    case NaN
    then show ?thesis using fl64_not_NaN by blast
  qed
  define M where "M = js_min (Fin r4) v"
  have M: "M \<noteq> NaN" "js_le M (Fin (1/2))"
  proof -
    show "M \<noteq> NaN" using v by (simp add: M_def js_min_def)
    show "js_le M (Fin (1/2))"
    proof (cases "js_le (Fin r4) v")
      case True
      then show ?thesis using v r4(2) by (simp add: M_def js_min_def)
    next
      case False
      then have "M = v" using v by (simp add: M_def js_min_def)
      then show ?thesis using False v r4(2) by (cases v) simp_all
    qed
  qed
  have "calculateRadialContribution64 b (Fin rc) (Fin rl) = d_sub (Fin 1) M"
    unfolding calculateRadialContribution64_def r5(1) r4(1) M_def v_def
    using False by (simp add: js_seq_def)
  then show ?thesis using d_sub_from_one[OF M] by simp
qed

lemma d_mul_PInf_positive:
  assumes "js_le (Fin (1/2)) F"
  shows "d_mul PInf F = PInf"
  using assms by (cases F) (simp_all add: d_mul_def inf_of_sign_def)

lemma calculate64_fields:
  "resistivity (fst (calculate64 g))
     = adjustResistivityForWeather64 (baseResistivityOf (soilType g)) (weather g) (humidity g)"
  "singleRodResistance (fst (calculate64 g))
     = calculateSingleRodResistance64 (resistivity (fst (calculate64 g)))
         (rodLength g) (rodDiameter g)"
  "totalResistance (fst (calculate64 g))
     = d_mul (calculateParallelResistance64 (singleRodResistance (fst (calculate64 g)))
                (rodCount g) (couplingFactor (fst (calculate64 g))))
             (calculateRadialContribution64
                (calculateParallelResistance64 (singleRodResistance (fst (calculate64 g)))
                   (rodCount g) (couplingFactor (fst (calculate64 g))))
                (radialCount g) (radialLength g))"
  "efficiency (fst (calculate64 g))
     = calculateEfficiency64 (totalResistance (fst (calculate64 g))) (targetResistance g)"
  "faultCurrent (fst (calculate64 g))
     = calculateFaultCurrent64 (faultVoltage g) (totalResistance (fst (calculate64 g)))"
  "systemStatus (fst (calculate64 g)) = getSystemStatus (totalResistance (fst (calculate64 g)))"
  by (simp_all add: calculate64_def Let_def)

lemma no_rods_total64:
  assumes "rodCount g = Fin 0" "radialCount g = Fin rc" "radialLength g = Fin rl"
  shows "totalResistance (fst (calculate64 g)) = PInf"
proof -
  have "calculateParallelResistance64 x (Fin 0) y = PInf" for x y
    by (simp add: calculateParallelResistance64_def)
  then show ?thesis
    unfolding calculate64_fields(3) assms
    using radial64_positive by (simp add: d_mul_PInf_positive)
qed

text \<open>
  C2, amended. On doubles, with no rods (\<open>rodCount = 0\<close>), a soil type that is a key of
  the soil table or any string that is not a property every object inherits, a rod
  length and a rod diameter between \<open>2 powi (- 500)\<close> and \<open>2 powi 500\<close>, a humidity between 0 and 1 and
  finite values in the other numeric fields: the resistance of a single rod is finite,
  the total resistance is \<open>Infinity\<close>, the efficiency is 0, the status is "danger" and
  the fault current is 0. The infinite resistance does not meet the guard
  \<open>resistance <= 0\<close>; the fault current is the quotient of the voltage by \<open>Infinity\<close>.
\<close>

theorem calculate64_no_rods:
  assumes "rodCount g = Fin 0"
    and "soilType g \<notin> set Object_prototype_keys"
    and "rodLength g = Fin l" "2 powi (- 500) \<le> l" "l \<le> 2 powi 500"
    and "rodDiameter g = Fin d" "2 powi (- 500) \<le> d" "d \<le> 2 powi 500"
    and "humidity g = Fin h" "0 \<le> h" "h \<le> 1"
    and "radialCount g = Fin rc" "radialLength g = Fin rl"
    and "faultVoltage g = Fin v" "targetResistance g = Fin t"
  shows "js_isFinite (singleRodResistance (fst (calculate64 g)))
    \<and> totalResistance (fst (calculate64 g)) = PInf
    \<and> efficiency (fst (calculate64 g)) = Fin 0
    \<and> status (systemStatus (fst (calculate64 g))) = ''danger''
    \<and> \<not> js_le (totalResistance (fst (calculate64 g))) (Fin 0)
    \<and> faultCurrent (fst (calculate64 g))
        = d_div (faultVoltage g) (totalResistance (fst (calculate64 g)))
    \<and> faultCurrent (fst (calculate64 g)) = Fin 0"
proof -
  obtain b where b: "baseResistivityOf (soilType g) = Fin b" "10 \<le> b" "b \<le> 1500"
    using baseResistivityOf_own[OF assms(2)] by blast
  obtain r where r: "resistivity (fst (calculate64 g)) = Fin r" "0 \<le> r" "r \<le> 2 powi 12"
    unfolding calculate64_fields(1) b(1) assms(9)
    using adjustResistivityForWeather64_bounds[OF b(2,3) assms(10,11)] by blast
  have s: "js_isFinite (singleRodResistance (fst (calculate64 g)))"
    unfolding calculate64_fields(2) r(1) assms(3,6)
    using r(2,3) assms(4,5,7,8) by (rule singleRod64_finite)
  have t: "totalResistance (fst (calculate64 g)) = PInf"
    using assms(1,12,13) by (rule no_rods_total64)
  have e: "efficiency (fst (calculate64 g)) = Fin 0"
    unfolding calculate64_fields(4) t assms(15)
    by (cases "fl64 (t * 10)") (simp_all add: calculateEfficiency64_def js_ge_def d_mul_Fin)
  have st: "status (systemStatus (fst (calculate64 g))) = ''danger''"
    unfolding calculate64_fields(6) t by (simp add: getSystemStatus_def)
  have fc: "faultCurrent (fst (calculate64 g)) = d_div (faultVoltage g) PInf"
    unfolding calculate64_fields(5) t by (simp add: calculateFaultCurrent64_def)
  have z: "d_div (faultVoltage g) PInf = Fin 0"
    unfolding assms(14) by (simp add: d_div_def)
  show ?thesis using s t e st fc z by simp
qed

theorem calculate64_no_rods_witness:
  "js_isFinite (singleRodResistance (fst (calculate64
      (GroundingSystem_new\<lparr>rodCount := Fin 0, rodLength := Fin 2, rodDiameter := Fin (1/64)\<rparr>))))
   \<and> totalResistance (fst (calculate64
      (GroundingSystem_new\<lparr>rodCount := Fin 0, rodLength := Fin 2, rodDiameter := Fin (1/64)\<rparr>))) = PInf
   \<and> efficiency (fst (calculate64
      (GroundingSystem_new\<lparr>rodCount := Fin 0, rodLength := Fin 2, rodDiameter := Fin (1/64)\<rparr>))) = Fin 0
   \<and> status (systemStatus (fst (calculate64
      (GroundingSystem_new\<lparr>rodCount := Fin 0, rodLength := Fin 2, rodDiameter := Fin (1/64)\<rparr>)))) = ''danger''
   \<and> \<not> js_le (totalResistance (fst (calculate64
      (GroundingSystem_new\<lparr>rodCount := Fin 0, rodLength := Fin 2, rodDiameter := Fin (1/64)\<rparr>)))) (Fin 0)
   \<and> faultCurrent (fst (calculate64
      (GroundingSystem_new\<lparr>rodCount := Fin 0, rodLength := Fin 2, rodDiameter := Fin (1/64)\<rparr>)))
      = d_div (faultVoltage
      (GroundingSystem_new\<lparr>rodCount := Fin 0, rodLength := Fin 2, rodDiameter := Fin (1/64)\<rparr>)) (totalResistance (fst (calculate64
      (GroundingSystem_new\<lparr>rodCount := Fin 0, rodLength := Fin 2, rodDiameter := Fin (1/64)\<rparr>))))
   \<and> faultCurrent (fst (calculate64
      (GroundingSystem_new\<lparr>rodCount := Fin 0, rodLength := Fin 2, rodDiameter := Fin (1/64)\<rparr>))) = Fin 0"
proof -
  define g where
    "g = GroundingSystem_new\<lparr>rodCount := Fin 0, rodLength := Fin 2, rodDiameter := Fin (1/64)\<rparr>"
  have p1: "(2::real) powi (- 500) \<le> 2 powi 1" "(2::real) powi 1 \<le> 2 powi 500"
    "(2::real) powi (- 500) \<le> 2 powi (- 6)" "(2::real) powi (- 6) \<le> 2 powi 500"
    by (rule power_int_increasing; simp)+
  have p2: "(2::real) powi (- 6) = 1/64" "(2::real) powi 1 = 2"
    by (simp_all add: power_int_minus_divide)
  have "js_isFinite (singleRodResistance (fst (calculate64 g)))
    \<and> totalResistance (fst (calculate64 g)) = PInf
    \<and> efficiency (fst (calculate64 g)) = Fin 0
    \<and> status (systemStatus (fst (calculate64 g))) = ''danger''
    \<and> \<not> js_le (totalResistance (fst (calculate64 g))) (Fin 0)
    \<and> faultCurrent (fst (calculate64 g))
        = d_div (faultVoltage g) (totalResistance (fst (calculate64 g)))
    \<and> faultCurrent (fst (calculate64 g)) = Fin 0"
  proof (rule calculate64_no_rods[of g 2 "1/64" "1/2" 8 5 220 5])
    show "rodCount g = Fin 0" by (simp add: g_def)
    show "soilType g \<notin> set Object_prototype_keys"
      by (simp add: g_def GroundingSystem_new_def Object_prototype_keys_def)
    show "rodLength g = Fin 2" by (simp add: g_def)
    show "2 powi (- 500) \<le> (2::real)" "(2::real) \<le> 2 powi 500" using p1(1,2) p2(2) by simp_all
    show "rodDiameter g = Fin (1/64)" by (simp add: g_def)
    show "2 powi (- 500) \<le> (1/64::real)" "(1/64::real) \<le> 2 powi 500"
      using p1(3,4) p2(1) by simp_all
    show "humidity g = Fin (1/2)" by (simp add: g_def GroundingSystem_new_def)
    show "(0::real) \<le> 1/2" "(1/2::real) \<le> 1" by simp_all
    show "radialCount g = Fin 8" "radialLength g = Fin 5" "faultVoltage g = Fin 220"
      "targetResistance g = Fin 5" by (simp_all add: g_def GroundingSystem_new_def)
  qed
  then show ?thesis unfolding g_def .
qed

lemma ln_2_bounds: "1/2 \<le> ln (2::real)" "ln (2::real) \<le> 1"
proof -
  have "exp (1/2::real) \<le> 2"
  proof (rule ccontr)
    assume "\<not> exp (1/2::real) \<le> 2"
    then have "2 < exp (1/2::real)" by simp
    then have "2 * 2 < exp (1/2::real) * exp (1/2)" by (intro mult_strict_mono) simp_all
    also have "\<dots> = exp (1::real)" by (simp add: mult_exp_exp)
    finally show False using exp_le by linarith
  qed
  then have "ln (exp (1/2::real)) \<le> ln 2" by (intro ln_mono) simp_all
  then show "1/2 \<le> ln (2::real)" by simp
  have "(2::real) \<le> exp 1" using exp_ge_add_one_self[of "1::real"] by simp
  then have "ln (2::real) \<le> ln (exp 1)" by (intro ln_mono) simp_all
  then show "ln (2::real) \<le> 1" by simp
qed

lemma ln_pow2i: "ln ((2::real) powi k) = of_int k * ln 2"
proof -
  have "ln (1 / 2 :: real) = - ln 2" by (simp add: ln_div)
  then show ?thesis
    by (cases "0 \<le> k") (simp_all add: power_int_def ln_realpow ln_inverse)
qed

lemma default_resistivity64:
  "\<exists>r. adjustResistivityForWeather64 (Fin 40) ''sunny'' (Fin (1/2)) = Fin r \<and> 16 \<le> r \<and> r \<le> 64"
proof -
  obtain a where a: "d_lit (3/10) = Fin a" "1/4 \<le> a" "a \<le> 1/2" using d_lit_3_10 by blast
  have "2 powi (- 3) \<le> 1/2 * a" "1/2 * a \<le> 2 powi (- 2)"
    using a by (simp_all add: power_int_minus_divide)
  then obtain b where b: "fl64 (1/2 * a) = Fin b" "2 powi (- 3) \<le> b" "b \<le> 2 powi (- 2)"
    using fl64_pos_interval[of "- 3" "1/2 * a" "- 2"] by auto
  then have b': "1/8 \<le> b" "b \<le> 1/4" by (simp_all add: power_int_minus_divide)
  have "2 powi (- 1) \<le> 1 - b" "1 - b \<le> 2 powi 0"
    using b' by (simp_all add: power_int_minus_divide)
  then obtain c where c: "fl64 (1 - b) = Fin c" "2 powi (- 1) \<le> c" "c \<le> 2 powi 0"
    using fl64_pos_interval[of "- 1" "1 - b" 0] by auto
  then obtain e where e: "fl64 c = Fin e" "2 powi (- 1) \<le> e" "e \<le> 2 powi 0"
    using fl64_pos_interval[of "- 1" c 0] by auto
  then have e': "1/2 \<le> e" "e \<le> 1" by (simp_all add: power_int_minus_divide)
  have "2 powi 4 \<le> 40 * e" "40 * e \<le> 2 powi 6" using e' by simp_all
  then obtain r where r: "fl64 (40 * e) = Fin r" "2 powi 4 \<le> r" "r \<le> 2 powi 6"
    using fl64_pos_interval[of 4 "40 * e" 6] by auto
  have "adjustResistivityForWeather64 (Fin 40) ''sunny'' (Fin (1/2)) = Fin r"
    unfolding adjustResistivityForWeather64_def weatherFactor64_def a(1) Let_def
    using b(1) c(1) e(1) r(1) by (simp add: d_mul_Fin d_sub_Fin)
  then show ?thesis using r(2,3) by simp
qed

lemma singleRod64_overflow:
  assumes "16 \<le> r"
  shows "calculateSingleRodResistance64 (Fin r) (Fin (2 powi (- 1060))) (Fin (1/64)) = NInf"
proof -
  define L :: real where "L = 2 powi (- 1060)"
  have Lpos: "0 < L" by (simp add: L_def)
  obtain p where p: "d_PI = Fin p" "2 \<le> p" "p \<le> 4" using d_PI_bounds by blast
  have "2 powi 2 \<le> 2 * p" "2 * p \<le> 2 powi 3" using p by simp_all
  then obtain q where q: "fl64 (2 * p) = Fin q" "2 powi 2 \<le> q" "q \<le> 2 powi 3"
    using fl64_pos_interval[of 2 "2 * p" 3] by auto
  then have q': "4 \<le> q" "q \<le> 8" by simp_all
  have "4 * L \<le> q * L" "q * L \<le> 8 * L" using q' Lpos by simp_all
  moreover have "4 * L = 2 powi (- 1058)" "8 * L = 2 powi (- 1057)"
    by (simp_all add: L_def power_int_minus_divide)
  ultimately have "2 powi (- 1058) \<le> q * L" "q * L \<le> 2 powi (- 1057)" by simp_all
  then obtain den where den: "fl64 (q * L) = Fin den" "2 powi (- 1058) \<le> den"
      "den \<le> 2 powi (- 1057)"
    using fl64_pos_interval[of "- 1058" "q * L" "- 1057"] by auto
  have "0 < (2::real) powi (- 1058)" by simp
  then have denpos: "0 < den" using den(2) by linarith
  have "16 / 2 powi (- 1057) \<le> r / den" using assms den(3) denpos by (intro frac_le) simp_all
  moreover have "(2::real) ^ 1024 \<le> 16 / 2 powi (- 1057)" by (simp add: power_int_minus_divide)
  ultimately have "2 ^ 1024 \<le> r / den" by linarith
  then have quo: "fl64 (r / den) = PInf" by (rule fl64_overflow)
  define E :: real where "E = 2 powi (- 1058)"
  define G :: real where "G = 2 powi (- 1052)"
  have "4 * L = E" by (simp add: L_def E_def power_int_minus_divide)
  moreover have "fl64 E = Fin E" unfolding E_def by (rule fl64_pow2) simp_all
  ultimately have e: "fl64 (4 * L) = Fin E" by simp
  have "E / (1/64) = G" by (simp add: E_def G_def power_int_minus_divide)
  moreover have "fl64 G = Fin G" unfolding G_def by (rule fl64_pow2) simp_all
  ultimately have g: "fl64 (E / (1/64)) = Fin G" by simp
  have Gpos: "0 < G" by (simp add: G_def)
  have "ln G = of_int (- 1052) * ln 2" unfolding G_def by (rule ln_pow2i)
  then have "ln G = - (1052 * ln 2)" by simp
  moreover have "526 \<le> 1052 * ln (2::real)" "1052 * ln (2::real) \<le> 1052"
    using ln_2_bounds by simp_all
  ultimately have "- (2 powi 11) \<le> ln G" "ln G \<le> - (2 powi 9)" by simp_all
  then obtain lg where lg: "fl64 (ln G) = Fin lg" "lg \<le> - (2 powi 9)"
    using fl64_neg_interval[of 11 "ln G" 9] by auto
  then have lgneg: "lg < 0" by simp
  have dn: "den \<noteq> 0" using denpos by simp
  have s1: "d_mul (Fin 2) (Fin p) = Fin q" by (simp add: d_mul_Fin q(1))
  have s2: "d_mul (Fin q) (Fin L) = Fin den" by (simp add: d_mul_Fin den(1))
  have s3: "d_div (Fin r) (Fin den) = PInf" using dn by (simp add: d_div_Fin quo)
  have s4: "d_mul (Fin 4) (Fin L) = Fin E" by (simp only: d_mul_Fin e)
  have s5: "d_div (Fin E) (Fin (1/64)) = Fin G"
  proof -
    have "(1/64::real) \<noteq> 0" by simp
    then have "d_div (Fin E) (Fin (1/64)) = fl64 (E / (1/64))" by (rule d_div_Fin)
    then show ?thesis by (simp only: g)
  qed
  have s6: "d_log (Fin G) = Fin lg" using Gpos by (simp add: d_log_def lg(1))
  have s7: "d_mul PInf (Fin lg) = NInf" using lgneg by (simp add: d_mul_def inf_of_sign_def)
  have guard: "\<not> (js_le (Fin L) (Fin 0) \<or> js_le (Fin (1/64)) (Fin 0))" using Lpos by simp
  have "calculateSingleRodResistance64 (Fin r) (Fin L) (Fin (1/64)) = NInf"
    unfolding calculateSingleRodResistance64_def p(1) s1 s2 s3 s4 s5 s6 s7
    using guard by simp
  then show ?thesis by (simp only: L_def)
qed

text \<open>
  C2, as the claim states it, fails on doubles for a very short rod. With no rods, the
  rod length \<open>2 powi (- 1060)\<close> (a positive double) and the rod diameter \<open>1/64\<close>, the other fields
  as the constructor sets them, the quotient of the resistivity by \<open>2 * PI * length\<close>
  overflows to \<open>Infinity\<close>, the logarithm is negative, and the resistance of a single rod
  is \<open>-Infinity\<close>, which is not finite.
\<close>

theorem calculate_no_rods_counterexample:
  "\<not> js_isFinite (singleRodResistance (fst (calculate64
      (GroundingSystem_new\<lparr>rodCount := Fin 0, rodLength := Fin (2 powi (- 1060)),
         rodDiameter := Fin (1/64)\<rparr>))))"
proof -
  obtain r where r: "adjustResistivityForWeather64 (Fin 40) ''sunny'' (Fin (1/2)) = Fin r"
      "16 \<le> r"
    using default_resistivity64 by blast
  have b: "baseResistivityOf ''clay'' = Fin 40"
    by (simp add: baseResistivityOf_def SOIL_RESISTIVITY_def js_truthy_def)
  have "singleRodResistance (fst (calculate64
      (GroundingSystem_new\<lparr>rodCount := Fin 0, rodLength := Fin (2 powi (- 1060)),
         rodDiameter := Fin (1/64)\<rparr>))) = NInf"
    unfolding calculate64_fields(2) calculate64_fields(1)
    using singleRod64_overflow[OF r(2)] by (simp add: GroundingSystem_new_def b r(1))
  then show ?thesis by simp
qed

subsection \<open>The floor of the adjusted resistivity\<close>
















end
